theory Spec2Isabelle
  imports
    Complex_Main
    "HOL-Library.Char_ord"
    "HOL-Library.List_Lexorder"
    "HOL-Library.Product_Lexorder"
    "HOL-Library.Multiset"
begin

section \<open>Strings\<close>

text \<open>
  A Python \<^verbatim>\<open>str\<close> is modelled as a \<^typ>\<open>string\<close> whose characters are code points
  below 256. Strings are compared as Python compares them, lexicographically by code
  point (the order of \<^theory_text>\<open>Char_ord\<close> and \<^theory_text>\<open>List_Lexorder\<close>).
\<close>

definition NL :: string where
  "NL = [CHR 0x0A]"

definition is_space :: "char \<Rightarrow> bool" where
  \<comment> \<open>the code points below 256 that \<^verbatim>\<open>str.strip()\<close> removes\<close>
  "is_space c =
     (let n = (of_char c :: nat)
      in (9 \<le> n \<and> n \<le> 13) \<or> (28 \<le> n \<and> n \<le> 32) \<or> n = 133 \<or> n = 160)"

definition strip_of :: "(char \<Rightarrow> bool) \<Rightarrow> string \<Rightarrow> string" where
  \<comment> \<open>\<^verbatim>\<open>s.strip(chars)\<close>: drop the leading and the trailing characters of the class\<close>
  "strip_of P s = rev (dropWhile P (rev (dropWhile P s)))"

definition strip :: "string \<Rightarrow> string" where
  \<comment> \<open>\<^verbatim>\<open>s.strip()\<close>\<close>
  "strip s = strip_of is_space s"

fun str_split :: "char \<Rightarrow> string \<Rightarrow> string list" where
  \<comment> \<open>\<^verbatim>\<open>s.split(sep)\<close> for a one-character separator\<close>
  "str_split sep [] = [[]]"
| "str_split sep (c # cs) =
     (if c = sep then [] # str_split sep cs
      else (case str_split sep cs of
              [] \<Rightarrow> [[c]]
            | x # xs \<Rightarrow> (c # x) # xs))"

definition split_first :: "char \<Rightarrow> string \<Rightarrow> string \<times> string" where
  \<comment> \<open>\<^verbatim>\<open>k, v = s.split(sep, 1)\<close> for a string that contains the separator\<close>
  "split_first sep s = (takeWhile (\<lambda>c. c \<noteq> sep) s, tl (dropWhile (\<lambda>c. c \<noteq> sep) s))"

definition lower_char :: "char \<Rightarrow> char" where
  \<comment> \<open>\<^verbatim>\<open>str.lower()\<close> on one code point below 256\<close>
  "lower_char c =
     (let n = (of_char c :: nat)
      in if (65 \<le> n \<and> n \<le> 90) \<or> (192 \<le> n \<and> n \<le> 222 \<and> n \<noteq> 215)
         then char_of (n + 32) else c)"

definition lower :: "string \<Rightarrow> string" where
  "lower s = map lower_char s"

fun starts_with :: "string \<Rightarrow> string \<Rightarrow> bool" where
  "starts_with [] s = True"
| "starts_with (p # ps) [] = False"
| "starts_with (p # ps) (c # cs) = (p = c \<and> starts_with ps cs)"

fun contains :: "string \<Rightarrow> string \<Rightarrow> bool" where
  \<comment> \<open>\<^verbatim>\<open>pat in s\<close>\<close>
  "contains pat [] = (pat = [])"
| "contains pat (c # cs) = (starts_with pat (c # cs) \<or> contains pat cs)"

fun join :: "string \<Rightarrow> string list \<Rightarrow> string" where
  \<comment> \<open>\<^verbatim>\<open>sep.join(xs)\<close>\<close>
  "join sep [] = []"
| "join sep [x] = x"
| "join sep (x # y # ys) = x @ sep @ join sep (y # ys)"

definition digit_char :: "nat \<Rightarrow> char" where
  "digit_char d = char_of (48 + d)"

function str_nat :: "nat \<Rightarrow> string" where
  "str_nat n = (if n < 10 then [digit_char n] else str_nat (n div 10) @ [digit_char (n mod 10)])"
  by pat_completeness auto
termination
  by (relation "measure id") auto

definition str_int :: "int \<Rightarrow> string" where
  \<comment> \<open>\<^verbatim>\<open>str(i)\<close> for an integer\<close>
  "str_int i = (if i < 0 then CHR ''-'' # str_nat (nat (- i)) else str_nat (nat i))"

section \<open>Configuration\<close>

text \<open>
  The module-level constants are read from the environment once, at import. They are the
  fields of one record, a parameter of every function that reads them.
\<close>

record config =
  PDNS_API_URL :: string
  PDNS_API_KEY :: string
  PDNS_SERVER_ID :: string
  DNS_ZONE :: string
  DNS_TTL :: int
  DNS_RECORD_PREFIX :: string
  SOURCE_LABEL_SELECTOR :: string
  CONFIGMAP_NAMESPACE :: string
  CONFIGMAP_NAME :: string
  CONFIG_FILE_JSON :: string
  CONFIG_FILE_LIST :: string
  CONFIG_ANNOTATION_BUMP :: string
  VERIFY_SSL :: bool
  RECONCILE_INTERVAL :: int
  WATCH_NAMESPACES :: "string list"

definition default_config :: config where
  \<comment> \<open>the defaults of the \<^verbatim>\<open>os.getenv\<close> calls\<close>
  "default_config = \<lparr>
     PDNS_API_URL = ''http://powerdns-api.default.svc.cluster.local:8081'',
     PDNS_API_KEY = ''changeme'',
     PDNS_SERVER_ID = ''localhost'',
     DNS_ZONE = ''example.com.'',
     DNS_TTL = 30,
     DNS_RECORD_PREFIX = '''',
     SOURCE_LABEL_SELECTOR = ''dns=true'',
     CONFIGMAP_NAMESPACE = ''default'',
     CONFIGMAP_NAME = ''pod-peers'',
     CONFIG_FILE_JSON = ''peers.json'',
     CONFIG_FILE_LIST = ''peers.txt'',
     CONFIG_ANNOTATION_BUMP = ''peers.lastUpdate'',
     VERIFY_SSL = False,
     RECONCILE_INTERVAL = 30,
     WATCH_NAMESPACES = [] \<rparr>"

definition zone_url :: "config \<Rightarrow> string" where
  "zone_url cfg =
     PDNS_API_URL cfg @ ''/api/v1/servers/'' @ PDNS_SERVER_ID cfg @ ''/zones/'' @ DNS_ZONE cfg"

definition fqdn_for_pod :: "config \<Rightarrow> string \<Rightarrow> string" where
  "fqdn_for_pod cfg pod_name =
     (let name = strip_of (\<lambda>c. c = CHR ''.'') (DNS_RECORD_PREFIX cfg @ pod_name)
      in name @ ''.'' @ DNS_ZONE cfg)"

section \<open>Selector matching\<close>

fun match_clauses :: "(string \<rightharpoonup> string) \<Rightarrow> string list \<Rightarrow> bool" where
  \<comment> \<open>the \<^verbatim>\<open>for clause in selector.split(",")\<close> loop of \<^verbatim>\<open>_match_selector\<close>\<close>
  "match_clauses labels [] = True"
| "match_clauses labels (clause # rest) =
     (let clause = strip clause in
      if clause = [] then match_clauses labels rest
      else if CHR ''='' \<in> set clause then
        (case split_first (CHR ''='') clause of
           (k, v) \<Rightarrow>
             if labels (strip k) \<noteq> Some (strip v) then False
             else match_clauses labels rest)
      else
        (if labels clause = None then False
         else match_clauses labels rest))"

definition match_selector :: "(string \<rightharpoonup> string) \<Rightarrow> string \<Rightarrow> bool" where
  \<comment> \<open>\<^verbatim>\<open>_match_selector(labels, selector)\<close>\<close>
  "match_selector labels selector =
     (if selector = [] then True
      else match_clauses labels (str_split (CHR '','') selector))"

section \<open>Cluster objects\<close>

text \<open>
  A pod as the cluster API returns it: the metadata with its name and namespace is always
  there, the labels, the status and the pod IP may be absent (\<^verbatim>\<open>None\<close>).
\<close>

record object_meta =
  meta_name :: string
  meta_namespace :: string
  meta_labels :: "(string \<rightharpoonup> string) option"

record pod_status =
  pod_ip :: "string option"

record pod =
  metadata :: object_meta
  status :: "pod_status option"

text \<open>
  The \<^verbatim>\<open>object\<close> of a watch event, as the handlers tell its cases apart: no object at all,
  an object without metadata, or a pod.
\<close>

datatype watch_object = NoObject | NoMetadata | PodObject pod

record event =
  ev_type :: "string option"
  ev_object :: watch_object

record peer =
  name :: string
  namespace :: string
  ip :: string

record cm_meta =
  cm_name :: string
  cm_namespace :: string
  cm_labels :: "(string \<rightharpoonup> string) option"
  annotations :: "(string \<rightharpoonup> string) option"
  resource_version :: "string option"
  uid :: "string option"

record configmap =
  cm_metadata :: cm_meta
  cm_data :: "(string \<rightharpoonup> string) option"
  binary_data :: "(string \<rightharpoonup> string) option"
  immutable :: "bool option"

definition pod_labels :: "pod \<Rightarrow> (string \<rightharpoonup> string)" where
  \<comment> \<open>\<^verbatim>\<open>pod.metadata.labels or {}\<close>\<close>
  "pod_labels p = (case meta_labels (metadata p) of None \<Rightarrow> Map.empty | Some l \<Rightarrow> l)"

section \<open>Peer projection\<close>

definition has_ip :: "pod \<Rightarrow> bool" where
  \<comment> \<open>the negation of \<^verbatim>\<open>not p.status or not p.status.pod_ip\<close>\<close>
  "has_ip p =
     (case status p of
        None \<Rightarrow> False
      | Some st \<Rightarrow> (case pod_ip st of None \<Rightarrow> False | Some a \<Rightarrow> a \<noteq> []))"

definition the_ip :: "pod \<Rightarrow> string" where
  \<comment> \<open>\<^verbatim>\<open>p.status.pod_ip\<close>, read only where \<^const>\<open>has_ip\<close> holds\<close>
  "the_ip p =
     (case status p of
        None \<Rightarrow> []
      | Some st \<Rightarrow> (case pod_ip st of None \<Rightarrow> [] | Some a \<Rightarrow> a))"

definition peer_of :: "pod \<Rightarrow> peer" where
  "peer_of p =
     \<lparr> name = meta_name (metadata p), namespace = meta_namespace (metadata p), ip = the_ip p \<rparr>"

fun collect_peers :: "pod list \<Rightarrow> peer list \<Rightarrow> peer list" where
  \<comment> \<open>the \<^verbatim>\<open>for p in pods\<close> loop of \<^verbatim>\<open>build_peers\<close>, with the list built so far\<close>
  "collect_peers [] peers = peers"
| "collect_peers (p # ps) peers =
     (if \<not> has_ip p then collect_peers ps peers
      else collect_peers ps (peers @ [peer_of p]))"

definition peer_key :: "peer \<Rightarrow> string \<times> string" where
  "peer_key x = (namespace x, name x)"

definition build_peers :: "pod list \<Rightarrow> peer list" where
  \<comment> \<open>\<^verbatim>\<open>list.sort\<close> is stable, as \<^const>\<open>sort_key\<close> is\<close>
  "build_peers pods = sort_key peer_key (collect_peers pods [])"

section \<open>JSON rendering of the peer list\<close>

definition hex_digit :: "nat \<Rightarrow> char" where
  "hex_digit d = (if d < 10 then char_of (48 + d) else char_of (87 + d))"

definition json_escape_char :: "char \<Rightarrow> string" where
  \<comment> \<open>\<^verbatim>\<open>json.dumps\<close> with \<^verbatim>\<open>ensure_ascii=True\<close>, on one code point below 256\<close>
  "json_escape_char c =
     (let n = (of_char c :: nat) in
      if n = 0x22 then [CHR 0x5C, CHR 0x22]
      else if n = 0x5C then [CHR 0x5C, CHR 0x5C]
      else if n = 8 then [CHR 0x5C, CHR ''b'']
      else if n = 12 then [CHR 0x5C, CHR ''f'']
      else if n = 10 then [CHR 0x5C, CHR ''n'']
      else if n = 13 then [CHR 0x5C, CHR ''r'']
      else if n = 9 then [CHR 0x5C, CHR ''t'']
      else if n < 32 \<or> 126 < n then
        [CHR 0x5C, CHR ''u'', CHR ''0'', CHR ''0'', hex_digit (n div 16), hex_digit (n mod 16)]
      else [c])"

definition json_string :: "string \<Rightarrow> string" where
  "json_string s = [CHR 0x22] @ concat (map json_escape_char s) @ [CHR 0x22]"

definition json_peer :: "peer \<Rightarrow> string" where
  \<comment> \<open>one dictionary, at nesting level 1 of \<^verbatim>\<open>indent=2\<close>\<close>
  "json_peer x =
     ''{'' @ NL @
     ''    '' @ json_string ''name'' @ '': '' @ json_string (name x) @ '','' @ NL @
     ''    '' @ json_string ''namespace'' @ '': '' @ json_string (namespace x) @ '','' @ NL @
     ''    '' @ json_string ''ip'' @ '': '' @ json_string (ip x) @ NL @
     ''  }''"

definition json_dumps :: "peer list \<Rightarrow> string" where
  \<comment> \<open>\<^verbatim>\<open>json.dumps(peers, indent=2)\<close>\<close>
  "json_dumps peers =
     (if peers = [] then ''[]''
      else ''['' @ NL @ ''  '' @ join ('','' @ NL @ ''  '') (map json_peer peers) @ NL @ '']'')"

definition configmap_data :: "config \<Rightarrow> peer list \<Rightarrow> (string \<rightharpoonup> string)" where
  \<comment> \<open>the dictionary \<^verbatim>\<open>data\<close> of \<^verbatim>\<open>upsert_configmap\<close>\<close>
  "configmap_data cfg peers =
     [CONFIG_FILE_JSON cfg \<mapsto> json_dumps peers,
      CONFIG_FILE_LIST cfg \<mapsto> join NL (map ip peers) @ (if peers \<noteq> [] then NL else [])]"

section \<open>The outside world\<close>

text \<open>
  Exceptions are values. Every exception of the model is a subclass of \<^verbatim>\<open>Exception\<close>,
  so \<^verbatim>\<open>except Exception\<close> catches each of them; \<^verbatim>\<open>except ApiException\<close> catches the one
  constructor. \<open>OtherException\<close> stands for what the HTTP and cluster clients raise
  besides (connection errors, timeouts).
\<close>

datatype exn =
    RuntimeError string
  | ApiException (api_status: int) string
  | ValueError string
  | OtherException string

fun str_exn :: "exn \<Rightarrow> string" where
  "str_exn (RuntimeError m) = m"
| "str_exn (ApiException st m) = m"
| "str_exn (ValueError m) = m"
| "str_exn (OtherException m) = m"

record response =
  status_code :: int
  resp_text :: string

record rrset =
  rr_name :: string
  rr_type :: string
  rr_ttl :: "int option"
  rr_changetype :: string
  rr_records :: "(string \<times> bool) list option"

text \<open>
  Every effect of the program is one entry of a trace, in the order of execution: what it
  prints, how long it sleeps, and each request to the DNS API or to the cluster API with
  its arguments.
\<close>

datatype call =
    Print string
  | PrintExc exn
  | Sleep real
  | RequestsGet string
  | RequestsPatch string "rrset list"
  | ListNamespacedPod string string
  | ListPodForAllNamespaces string
  | ReadNamespacedConfigMap string string
  | ReplaceNamespacedConfigMap string string configmap
  | CreateNamespacedConfigMap string configmap

type_synonym trace = "call list"

text \<open>
  The collaborators answer deterministically from the history: each one is a function of
  the trace up to and including the request it answers, so a service may fail for a
  while and recover, and a store may return what was written to it. The cluster client
  \<^verbatim>\<open>core\<close>, which \<^verbatim>\<open>ensure_clients\<close> creates on first use, keeps nothing between calls; it
  is the cluster half of this record.
\<close>

record env =
  requests_get :: "trace \<Rightarrow> exn + response"
  requests_patch :: "trace \<Rightarrow> exn + response"
  list_namespaced_pod :: "trace \<Rightarrow> exn + pod list"
  list_pod_for_all_namespaces :: "trace \<Rightarrow> exn + pod list"
  read_namespaced_config_map :: "trace \<Rightarrow> exn + configmap"
  replace_namespaced_config_map :: "trace \<Rightarrow> exn + unit"
  create_namespaced_config_map :: "trace \<Rightarrow> exn + unit"
  time_time :: "trace \<Rightarrow> int"

definition time_sleep :: "real \<Rightarrow> exn + unit" where
  \<comment> \<open>\<^verbatim>\<open>time.sleep(secs)\<close> raises \<^verbatim>\<open>ValueError\<close> on a negative duration; a float is
      read as the real number it denotes, and of a duration only the sign matters\<close>
  "time_sleep secs =
     (if secs < 0 then Inl (ValueError ''sleep length must be non-negative'') else Inr ())"

section \<open>DNS client\<close>

definition upsert_payload :: "string \<Rightarrow> string \<Rightarrow> int \<Rightarrow> rrset list" where
  \<comment> \<open>the \<^verbatim>\<open>rrsets\<close> of the payload of \<^verbatim>\<open>pdns_upsert_a_record\<close>\<close>
  "upsert_payload name_fqdn ip_addr ttl =
     [\<lparr> rr_name = name_fqdn, rr_type = ''A'', rr_ttl = Some ttl,
        rr_changetype = ''REPLACE'', rr_records = Some [(ip_addr, False)] \<rparr>]"

definition delete_payload :: "string \<Rightarrow> rrset list" where
  \<comment> \<open>the \<^verbatim>\<open>rrsets\<close> of the payload of \<^verbatim>\<open>pdns_delete_a_record\<close>\<close>
  "delete_payload name_fqdn =
     [\<lparr> rr_name = name_fqdn, rr_type = ''A'', rr_ttl = None,
        rr_changetype = ''DELETE'', rr_records = None \<rparr>]"

definition pdns_upsert_a_record ::
  "config \<Rightarrow> env \<Rightarrow> string \<Rightarrow> string \<Rightarrow> int \<Rightarrow> trace \<Rightarrow> (exn + unit) \<times> trace" where
  "pdns_upsert_a_record cfg env name_fqdn ip_addr ttl t =
     (let payload = upsert_payload name_fqdn ip_addr ttl;
          t1 = t @ [RequestsPatch (zone_url cfg) payload]
      in case requests_patch env t1 of
           Inl e \<Rightarrow> (Inl e, t1)
         | Inr r \<Rightarrow>
             if status_code r \<ge> 400
             then (Inl (RuntimeError (''PDNS upsert failed '' @ str_int (status_code r)
                                       @ '': '' @ resp_text r)), t1)
             else (Inr (), t1))"

definition pdns_delete_a_record ::
  "config \<Rightarrow> env \<Rightarrow> string \<Rightarrow> trace \<Rightarrow> (exn + unit) \<times> trace" where
  "pdns_delete_a_record cfg env name_fqdn t =
     (let payload = delete_payload name_fqdn;
          t1 = t @ [RequestsPatch (zone_url cfg) payload]
      in case requests_patch env t1 of
           Inl e \<Rightarrow> (Inl e, t1)
         | Inr r \<Rightarrow>
             if status_code r \<ge> 400 \<and> \<not> contains ''not found'' (lower (resp_text r))
             then (Inl (RuntimeError (''PDNS delete failed '' @ str_int (status_code r)
                                       @ '': '' @ resp_text r)), t1)
             else (Inr (), t1))"

definition pdns_ready :: "config \<Rightarrow> env \<Rightarrow> trace \<Rightarrow> bool \<times> trace" where
  "pdns_ready cfg env t =
     (let url = PDNS_API_URL cfg @ ''/api/v1/servers/'' @ PDNS_SERVER_ID cfg;
          t1 = t @ [RequestsGet url]
      in case requests_get env t1 of
           Inl e \<Rightarrow> (False, t1)
         | Inr r \<Rightarrow> (status_code r = 200, t1))"

fun upsert_attempts ::
  "config \<Rightarrow> env \<Rightarrow> string \<Rightarrow> string \<Rightarrow> int \<Rightarrow> real \<Rightarrow> nat list \<Rightarrow> exn option \<Rightarrow> trace
     \<Rightarrow> (exn + bool) \<times> trace" where
  \<comment> \<open>the \<^verbatim>\<open>for i in range(attempts)\<close> loop over the indices left, with \<^verbatim>\<open>last\<close>;
      leaving the loop prints the failure and returns \<^verbatim>\<open>False\<close>\<close>
  "upsert_attempts cfg env name_fqdn ip_addr ttl backoff [] last_exn t =
     (Inr False,
      t @ [Print (''[pdns] upsert failed after retries for '' @ name_fqdn @ '': ''
                  @ (case last_exn of None \<Rightarrow> ''None'' | Some e \<Rightarrow> str_exn e))])"
| "upsert_attempts cfg env name_fqdn ip_addr ttl backoff (i # rest) last_exn t =
     (case pdns_upsert_a_record cfg env name_fqdn ip_addr ttl t of
        (Inr u, t1) \<Rightarrow> (Inr True, t1)
      | (Inl e, t1) \<Rightarrow>
          (let secs = backoff * real (i + 1); t2 = t1 @ [Sleep secs]
           in case time_sleep secs of
                Inl e' \<Rightarrow> (Inl e', t2)
              | Inr u \<Rightarrow> upsert_attempts cfg env name_fqdn ip_addr ttl backoff rest (Some e) t2))"

definition pdns_upsert_with_retry ::
  "config \<Rightarrow> env \<Rightarrow> string \<Rightarrow> string \<Rightarrow> int \<Rightarrow> int \<Rightarrow> real \<Rightarrow> trace \<Rightarrow> (exn + bool) \<times> trace" where
  "pdns_upsert_with_retry cfg env name_fqdn ip_addr ttl attempts backoff t =
     upsert_attempts cfg env name_fqdn ip_addr ttl backoff [0..<nat attempts] None t"

section \<open>Listing the pods\<close>

fun list_namespaces ::
  "config \<Rightarrow> env \<Rightarrow> string list \<Rightarrow> pod list \<Rightarrow> trace \<Rightarrow> (exn + pod list) \<times> trace" where
  \<comment> \<open>the \<^verbatim>\<open>for ns in WATCH_NAMESPACES\<close> loop of \<^verbatim>\<open>list_source_pods\<close>\<close>
  "list_namespaces cfg env [] pods t = (Inr pods, t)"
| "list_namespaces cfg env (ns # rest) pods t =
     (let t1 = t @ [ListNamespacedPod ns (SOURCE_LABEL_SELECTOR cfg)]
      in case list_namespaced_pod env t1 of
           Inl e \<Rightarrow> (Inl e, t1)
         | Inr items \<Rightarrow> list_namespaces cfg env rest (pods @ items) t1)"

definition list_source_pods :: "config \<Rightarrow> env \<Rightarrow> trace \<Rightarrow> (exn + pod list) \<times> trace" where
  "list_source_pods cfg env t =
     (if WATCH_NAMESPACES cfg \<noteq> [] then list_namespaces cfg env (WATCH_NAMESPACES cfg) [] t
      else (let t1 = t @ [ListPodForAllNamespaces (SOURCE_LABEL_SELECTOR cfg)]
            in (list_pod_for_all_namespaces env t1, t1)))"

section \<open>Peer sink\<close>

definition stamp :: "config \<Rightarrow> env \<Rightarrow> trace \<Rightarrow> string" where
  \<comment> \<open>\<^verbatim>\<open>str(int(time.time()))\<close>\<close>
  "stamp cfg env t = str_int (time_time env t)"

definition replace_existing ::
  "config \<Rightarrow> env \<Rightarrow> (string \<rightharpoonup> string) \<Rightarrow> trace \<Rightarrow> (exn + unit) \<times> trace" where
  \<comment> \<open>the body of the \<^verbatim>\<open>try\<close> of \<^verbatim>\<open>upsert_configmap\<close>\<close>
  "replace_existing cfg env data t =
     (let t1 = t @ [ReadNamespacedConfigMap (CONFIGMAP_NAME cfg) (CONFIGMAP_NAMESPACE cfg)]
      in case read_namespaced_config_map env t1 of
           Inl e \<Rightarrow> (Inl e, t1)
         | Inr existing \<Rightarrow>
             (let existing1 = existing \<lparr> cm_data := Some data \<rparr>;
                  anns = (case annotations (cm_metadata existing1) of
                            None \<Rightarrow> Map.empty
                          | Some a \<Rightarrow> a);
                  existing2 = existing1 \<lparr> cm_metadata := (cm_metadata existing1)
                     \<lparr> annotations := Some (anns (CONFIG_ANNOTATION_BUMP cfg \<mapsto> stamp cfg env t1)) \<rparr> \<rparr>;
                  t2 = t1 @ [ReplaceNamespacedConfigMap (CONFIGMAP_NAME cfg)
                               (CONFIGMAP_NAMESPACE cfg) existing2]
              in (replace_namespaced_config_map env t2, t2)))"

definition upsert_configmap ::
  "config \<Rightarrow> env \<Rightarrow> peer list \<Rightarrow> trace \<Rightarrow> (exn + unit) \<times> trace" where
  "upsert_configmap cfg env peers t =
     (let data = configmap_data cfg peers;
          cm_meta = \<lparr> cm_name = CONFIGMAP_NAME cfg, cm_namespace = CONFIGMAP_NAMESPACE cfg,
                      cm_labels = None, annotations = None, resource_version = None,
                      uid = None \<rparr>;
          cm = \<lparr> cm_metadata = cm_meta, cm_data = Some data, binary_data = None,
                 immutable = None \<rparr>
      in case replace_existing cfg env data t of
           (Inr u, t2) \<Rightarrow> (Inr (), t2)
         | (Inl (ApiException st m), t2) \<Rightarrow>
             if st = 404 then
               (let cm1 = cm \<lparr> cm_metadata := (cm_metadata cm)
                            \<lparr> annotations :=
                                Some [CONFIG_ANNOTATION_BUMP cfg \<mapsto> stamp cfg env t2] \<rparr> \<rparr>;
                    t3 = t2 @ [CreateNamespacedConfigMap (CONFIGMAP_NAMESPACE cfg) cm1]
                in (create_namespaced_config_map env t3, t3))
             else (Inl (ApiException st m), t2)
         | (Inl e, t2) \<Rightarrow> (Inl e, t2))"

section \<open>Reconciler\<close>

fun upsert_peers :: "config \<Rightarrow> env \<Rightarrow> peer list \<Rightarrow> trace \<Rightarrow> (exn + unit) \<times> trace" where
  \<comment> \<open>the \<^verbatim>\<open>for peer in peers\<close> loop of \<^verbatim>\<open>reconcile_all\<close>; the retry wrapper is called
      with its defaults: the configured TTL, 6 attempts, a backoff of 2.0\<close>
  "upsert_peers cfg env [] t = (Inr (), t)"
| "upsert_peers cfg env (x # rest) t =
     (let fqdn = fqdn_for_pod cfg (name x)
      in case pdns_upsert_with_retry cfg env fqdn (ip x) (DNS_TTL cfg) 6 2 t of
           (Inl e, t1) \<Rightarrow> (Inl e, t1)
         | (Inr b, t1) \<Rightarrow> upsert_peers cfg env rest t1)"

definition sync_dns :: "config \<Rightarrow> env \<Rightarrow> peer list \<Rightarrow> trace \<Rightarrow> (exn + unit) \<times> trace" where
  \<comment> \<open>the \<^verbatim>\<open>if pdns_ready(): ... else: ...\<close> statement of \<^verbatim>\<open>reconcile_all\<close>\<close>
  "sync_dns cfg env peers t =
     (case pdns_ready cfg env t of
        (ready, t1) \<Rightarrow>
          if ready then upsert_peers cfg env peers t1
          else (Inr (), t1 @ [Print ''[pdns] API not ready; will retry later'']))"

definition reconcile_all :: "config \<Rightarrow> env \<Rightarrow> string \<Rightarrow> trace \<Rightarrow> (exn + unit) \<times> trace" where
  "reconcile_all cfg env reason t =
     (let t0 = t @ [Print (''[reconcile] start ('' @ reason @ '')'')]
      in case list_source_pods cfg env t0 of
           (Inl e, t1) \<Rightarrow> (Inl e, t1)
         | (Inr pods, t1) \<Rightarrow>
             (let peers = build_peers pods
              in case sync_dns cfg env peers t1 of
                   (Inl e, t2) \<Rightarrow> (Inl e, t2)
                 | (Inr u, t2) \<Rightarrow>
                     (case upsert_configmap cfg env peers t2 of
                        (Inl e, t3) \<Rightarrow> (Inl e, t3)
                      | (Inr u, t3) \<Rightarrow>
                          (Inr (), t3 @ [Print (''[reconcile] done peers=''
                                                @ str_int (int (length peers)))]))))"

section \<open>Event handlers and dispatch\<close>

definition reconcile_guarded :: "config \<Rightarrow> env \<Rightarrow> string \<Rightarrow> trace \<Rightarrow> (exn + unit) \<times> trace" where
  \<comment> \<open>\<^verbatim>\<open>try: reconcile_all(reason)\<close> \<^verbatim>\<open>except Exception: traceback.print_exc()\<close>\<close>
  "reconcile_guarded cfg env reason t =
     (case reconcile_all cfg env reason t of
        (Inr u, t1) \<Rightarrow> (Inr (), t1)
      | (Inl e, t1) \<Rightarrow> (Inr (), t1 @ [PrintExc e]))"

definition handle_pod_added :: "config \<Rightarrow> env \<Rightarrow> watch_object \<Rightarrow> trace \<Rightarrow> (exn + unit) \<times> trace" where
  "handle_pod_added cfg env obj t =
     (case obj of
        NoObject \<Rightarrow> (Inr (), t)
      | NoMetadata \<Rightarrow> (Inr (), t)
      | PodObject p \<Rightarrow>
          (let labels = pod_labels p
           in if \<not> match_selector labels (SOURCE_LABEL_SELECTOR cfg) then (Inr (), t)
              else if \<not> has_ip p then (Inr (), t)
              else
                (let ip_addr = the_ip p;
                     fqdn = fqdn_for_pod cfg (meta_name (metadata p));
                     t1 = (case pdns_upsert_with_retry cfg env fqdn ip_addr (DNS_TTL cfg) 6 2 t of
                             (Inr b, t') \<Rightarrow>
                               t' @ [Print (''[pdns] UPSERT A '' @ fqdn @ '' -> '' @ ip_addr)]
                           | (Inl e, t') \<Rightarrow>
                               t' @ [Print (''[pdns] upsert failed for '' @ fqdn @ '': ''
                                            @ str_exn e)])
                 in reconcile_guarded cfg env ''pod_added'' t1)))"

definition handle_pod_deleted :: "config \<Rightarrow> env \<Rightarrow> watch_object \<Rightarrow> trace \<Rightarrow> (exn + unit) \<times> trace" where
  "handle_pod_deleted cfg env obj t =
     (case obj of
        NoObject \<Rightarrow> (Inr (), t)
      | NoMetadata \<Rightarrow> (Inr (), t)
      | PodObject p \<Rightarrow>
          (let labels = pod_labels p
           in if \<not> match_selector labels (SOURCE_LABEL_SELECTOR cfg) then (Inr (), t)
              else
                (let fqdn = fqdn_for_pod cfg (meta_name (metadata p));
                     t1 = (case pdns_delete_a_record cfg env fqdn t of
                             (Inr u, t') \<Rightarrow> t' @ [Print (''[pdns] DELETE A '' @ fqdn)]
                           | (Inl e, t') \<Rightarrow>
                               t' @ [Print (''[pdns] delete failed for '' @ fqdn @ '': ''
                                            @ str_exn e)])
                 in reconcile_guarded cfg env ''pod_deleted'' t1)))"

definition dispatch_event :: "config \<Rightarrow> env \<Rightarrow> event \<Rightarrow> trace \<Rightarrow> (exn + unit) \<times> trace" where
  \<comment> \<open>\<^verbatim>\<open>_dispatch_event(event)\<close>\<close>
  "dispatch_event cfg env ev t =
     (if ev_type ev = Some ''ADDED'' \<or> ev_type ev = Some ''MODIFIED''
      then handle_pod_added cfg env (ev_object ev) t
      else if ev_type ev = Some ''DELETED''
      then handle_pod_deleted cfg env (ev_object ev) t
      else (Inr (), t))"

definition periodic_reconciler_step :: "config \<Rightarrow> env \<Rightarrow> trace \<Rightarrow> (exn + unit) \<times> trace" where
  \<comment> \<open>one turn of the \<^verbatim>\<open>while True\<close> loop of \<^verbatim>\<open>_periodic_reconciler\<close>\<close>
  "periodic_reconciler_step cfg env t =
     (let t2 = (case pdns_ready cfg env t of
                  (ready, t1) \<Rightarrow>
                    if ready then snd (reconcile_guarded cfg env ''periodic'' t1) else t1);
          secs = real_of_int (RECONCILE_INTERVAL cfg)
      in (time_sleep secs, t2 @ [Sleep secs]))"

section \<open>Observations on a trace\<close>

fun is_patch :: "call \<Rightarrow> bool" where
  "is_patch (RequestsPatch url payload) = True"
| "is_patch c = False"

definition n_patch :: "trace \<Rightarrow> nat" where
  \<comment> \<open>how many PATCH requests the DNS API has received\<close>
  "n_patch t = length (filter is_patch t)"

fun is_start :: "call \<Rightarrow> bool" where
  \<comment> \<open>the line a reconciliation pass prints first\<close>
  "is_start (Print s) = starts_with ''[reconcile] start'' s"
| "is_start c = False"

definition incremental :: "trace \<Rightarrow> trace" where
  \<comment> \<open>the PATCH requests issued before the first reconciliation pass starts\<close>
  "incremental d = filter is_patch (takeWhile (\<lambda>c. \<not> is_start c) d)"

fun is_sink_call :: "call \<Rightarrow> bool" where
  "is_sink_call (ReadNamespacedConfigMap n ns) = True"
| "is_sink_call (ReplaceNamespacedConfigMap n ns cm) = True"
| "is_sink_call (CreateNamespacedConfigMap ns cm) = True"
| "is_sink_call c = False"

fun is_list_call :: "call \<Rightarrow> bool" where
  "is_list_call (ListNamespacedPod ns sel) = True"
| "is_list_call (ListPodForAllNamespaces sel) = True"
| "is_list_call c = False"

fun writes_data :: "(string \<rightharpoonup> string) \<Rightarrow> call \<Rightarrow> bool" where
  \<comment> \<open>a replace or create of the sink document that carries the given data\<close>
  "writes_data d (ReplaceNamespacedConfigMap n ns cm) = (cm_data cm = Some d)"
| "writes_data d (CreateNamespacedConfigMap ns cm) = (cm_data cm = Some d)"
| "writes_data d c = False"



section \<open>The selector contract in the words of the specification\<close>

definition spec_clause_satisfied :: "(string \<rightharpoonup> string) \<Rightarrow> string \<Rightarrow> bool" where
  \<comment> \<open>a clause with \<open>=\<close> is split at the first \<open>=\<close> and requires
      \<open>labels[key] == value\<close>; a clause without requires the key to be present\<close>
  "spec_clause_satisfied labels clause =
     (if CHR ''='' \<in> set clause
      then (case split_first (CHR ''='') clause of (k, v) \<Rightarrow> labels k = Some v)
      else labels clause \<noteq> None)"

definition spec_matches :: "(string \<rightharpoonup> string) \<Rightarrow> string \<Rightarrow> bool" where
  \<comment> \<open>the empty selector matches everything; the selector is split on commas, each
      clause trimmed, empty clauses skipped, and all clauses must hold\<close>
  "spec_matches labels selector =
     (selector = [] \<or>
      list_all (\<lambda>c. c = [] \<or> spec_clause_satisfied labels c)
        (map strip (str_split (CHR '','') selector)))"

definition clause_satisfied :: "(string \<rightharpoonup> string) \<Rightarrow> string \<Rightarrow> bool" where
  \<comment> \<open>as \<^const>\<open>spec_clause_satisfied\<close>, with the key and the value trimmed\<close>
  "clause_satisfied labels clause =
     (if CHR ''='' \<in> set clause
      then (case split_first (CHR ''='') clause of (k, v) \<Rightarrow> labels (strip k) = Some (strip v))
      else labels clause \<noteq> None)"

section \<open>Example worlds\<close>

definition example_pod :: "string \<Rightarrow> string \<Rightarrow> string \<Rightarrow> pod" where
  \<comment> \<open>a pod labelled \<open>dns=true\<close> with the given namespace, name and IP\<close>
  "example_pod ns n a =
     \<lparr> metadata = \<lparr> meta_name = n, meta_namespace = ns,
                     meta_labels = Some [''dns'' \<mapsto> ''true''] \<rparr>,
       status = Some \<lparr> pod_ip = Some a \<rparr> \<rparr>"

definition unlabelled_pod :: pod where
  "unlabelled_pod =
     \<lparr> metadata = \<lparr> meta_name = ''db-0'', meta_namespace = ''a'', meta_labels = None \<rparr>,
       status = Some \<lparr> pod_ip = Some ''10.0.0.9'' \<rparr> \<rparr>"

definition env_offline :: env where
  \<comment> \<open>no collaborator can be reached\<close>
  "env_offline = \<lparr>
     requests_get = (\<lambda>t. Inl (OtherException ''connection refused'')),
     requests_patch = (\<lambda>t. Inl (OtherException ''connection refused'')),
     list_namespaced_pod = (\<lambda>t. Inl (OtherException ''connection refused'')),
     list_pod_for_all_namespaces = (\<lambda>t. Inl (OtherException ''connection refused'')),
     read_namespaced_config_map = (\<lambda>t. Inl (OtherException ''connection refused'')),
     replace_namespaced_config_map = (\<lambda>t. Inl (OtherException ''connection refused'')),
     create_namespaced_config_map = (\<lambda>t. Inl (OtherException ''connection refused'')),
     time_time = (\<lambda>t. 7) \<rparr>"

definition env_healthy :: "pod list \<Rightarrow> env" where
  \<comment> \<open>the cluster lists the given pods, the DNS API accepts every request, the sink
      document does not exist yet and can be created\<close>
  "env_healthy pods = \<lparr>
     requests_get = (\<lambda>t. Inr \<lparr> status_code = 200, resp_text = [] \<rparr>),
     requests_patch = (\<lambda>t. Inr \<lparr> status_code = 204, resp_text = [] \<rparr>),
     list_namespaced_pod = (\<lambda>t. Inr pods),
     list_pod_for_all_namespaces = (\<lambda>t. Inr pods),
     read_namespaced_config_map = (\<lambda>t. Inl (ApiException 404 ''Not Found'')),
     replace_namespaced_config_map = (\<lambda>t. Inr ()),
     create_namespaced_config_map = (\<lambda>t. Inr ()),
     time_time = (\<lambda>t. 7) \<rparr>"

definition env_dns_down :: "pod list \<Rightarrow> env" where
  \<comment> \<open>as \<^const>\<open>env_healthy\<close>, but the DNS API cannot be reached\<close>
  "env_dns_down pods = (env_healthy pods) \<lparr>
     requests_get := (\<lambda>t. Inl (OtherException ''connection refused'')),
     requests_patch := (\<lambda>t. Inl (OtherException ''connection refused'')) \<rparr>"

definition env_sink_down :: "pod list \<Rightarrow> env" where
  \<comment> \<open>the cluster lists the given pods; neither the DNS API nor the sink can be reached\<close>
  "env_sink_down pods = env_offline \<lparr>
     list_namespaced_pod := (\<lambda>t. Inr pods),
     list_pod_for_all_namespaces := (\<lambda>t. Inr pods) \<rparr>"


definition env_answering :: "response \<Rightarrow> env" where
  \<comment> \<open>the DNS API answers every PATCH with the given response\<close>
  "env_answering r = env_offline \<lparr> requests_patch := (\<lambda>t. Inr r) \<rparr>"



section \<open>The DNS record key\<close>

lemma strip_of_decomp:
  "\<exists>a b. s = a @ strip_of P s @ b \<and> (\<forall>c\<in>set a. P c) \<and> (\<forall>c\<in>set b. P c)"
proof -
  let ?u = "dropWhile P s"
  have 1: "s = takeWhile P s @ ?u" by simp
  have 2: "rev ?u = takeWhile P (rev ?u) @ dropWhile P (rev ?u)" by simp
  have 3: "?u = strip_of P s @ rev (takeWhile P (rev ?u))"
    unfolding strip_of_def by (metis rev_append rev_rev_ident takeWhile_dropWhile_id)
  have "s = takeWhile P s @ strip_of P s @ rev (takeWhile P (rev ?u))"
    using 1 3 by metis
  moreover have "\<forall>c\<in>set (takeWhile P s). P c" by (auto dest: set_takeWhileD)
  moreover have "\<forall>c\<in>set (rev (takeWhile P (rev ?u))). P c" by (auto dest: set_takeWhileD)
  ultimately show ?thesis by blast
qed

lemma last_dropWhile_keep:
  "dropWhile P xs \<noteq> [] \<Longrightarrow> last (dropWhile P xs) = last xs"
  by (induction xs) auto

lemma strip_of_ends:
  "strip_of P s = [] \<or> (\<not> P (hd (strip_of P s)) \<and> \<not> P (last (strip_of P s)))"
proof (cases "strip_of P s = []")
  case True then show ?thesis by simp
next
  case False
  let ?u = "dropWhile P s"
  let ?v = "dropWhile P (rev ?u)"
  have v: "?v \<noteq> []" using False by (simp add: strip_of_def)
  then have hv: "\<not> P (hd ?v)" by (rule hd_dropWhile)
  have u: "?u \<noteq> []"
    using v by (metis dropWhile.simps(1) rev.simps(1))
  then have hu: "\<not> P (hd ?u)" by (rule hd_dropWhile)
  have "last (strip_of P s) = hd ?v" using v by (simp add: strip_of_def last_rev)
  moreover have "hd (strip_of P s) = hd ?u"
  proof -
    have "hd (rev ?v) = last ?v" using v by (simp add: hd_rev)
    also have "\<dots> = last (rev ?u)" using v by (rule last_dropWhile_keep)
    also have "\<dots> = hd ?u" using u by (simp add: last_rev)
    finally show ?thesis by (simp add: strip_of_def)
  qed
  ultimately show ?thesis using hu hv by simp
qed

lemma strip_of_id:
  assumes "s = [] \<or> (\<not> P (hd s) \<and> \<not> P (last s))"
  shows "strip_of P s = s"
proof (cases "s = []")
  case True then show ?thesis by (simp add: strip_of_def)
next
  case False
  with assms have h: "\<not> P (hd s)" and l: "\<not> P (last s)" by auto
  from False h have 1: "dropWhile P s = s" by (cases s) auto
  from False l have "\<not> P (hd (rev s))" by (simp add: hd_rev)
  with False have 2: "dropWhile P (rev s) = rev s" by (cases "rev s") auto
  show ?thesis by (simp add: strip_of_def 1 2)
qed


lemma fqdn_for_pod_decomp:
  "\<exists>a b n. DNS_RECORD_PREFIX cfg @ pod_name = a @ n @ b
       \<and> set a \<subseteq> {CHR ''.''} \<and> set b \<subseteq> {CHR ''.''}
       \<and> (n = [] \<or> (hd n \<noteq> CHR ''.'' \<and> last n \<noteq> CHR ''.''))
       \<and> fqdn_for_pod cfg pod_name = n @ ''.'' @ DNS_ZONE cfg"
proof -
  define s where "s = DNS_RECORD_PREFIX cfg @ pod_name"
  define n where "n = strip_of (\<lambda>c. c = CHR ''.'') s"
  have f: "fqdn_for_pod cfg pod_name = n @ ''.'' @ DNS_ZONE cfg"
    unfolding fqdn_for_pod_def n_def s_def Let_def by (rule refl)
  have "\<exists>a b. s = a @ n @ b \<and> (\<forall>c\<in>set a. c = CHR ''.'') \<and> (\<forall>c\<in>set b. c = CHR ''.'')"
    unfolding n_def by (rule strip_of_decomp)
  then obtain a b where ab: "s = a @ n @ b"
    and a: "\<forall>c\<in>set a. c = CHR ''.''" and b: "\<forall>c\<in>set b. c = CHR ''.''"
    by (elim exE conjE)
  have e: "n = [] \<or> (hd n \<noteq> CHR ''.'' \<and> last n \<noteq> CHR ''.'')"
    unfolding n_def by (rule strip_of_ends)
  have sa: "set a \<subseteq> {CHR ''.''}"
    using a by (simp add: subset_iff)
  have sb: "set b \<subseteq> {CHR ''.''}"
    using b by (simp add: subset_iff)
  show ?thesis
    unfolding s_def[symmetric]
    by (rule exI[of _ a], rule exI[of _ b], rule exI[of _ n]) (intro conjI ab sa sb e f)
qed

lemma fqdn_for_pod_plain:
  assumes "DNS_RECORD_PREFIX cfg @ pod_name = []
        \<or> (hd (DNS_RECORD_PREFIX cfg @ pod_name) \<noteq> CHR ''.''
            \<and> last (DNS_RECORD_PREFIX cfg @ pod_name) \<noteq> CHR ''.'')"
  shows "fqdn_for_pod cfg pod_name = DNS_RECORD_PREFIX cfg @ pod_name @ ''.'' @ DNS_ZONE cfg"
proof -
  have "strip_of (\<lambda>c. c = CHR ''.'') (DNS_RECORD_PREFIX cfg @ pod_name)
          = DNS_RECORD_PREFIX cfg @ pod_name"
    by (rule strip_of_id) (rule assms)
  then show ?thesis
    unfolding fqdn_for_pod_def Let_def by simp
qed

text \<open>
  Claim C9, as amended. The record key of a pod is \<open>n.zone\<close>, where \<open>n\<close> is the
  configured prefix followed by the pod name with every leading and every trailing dot
  removed: \<open>n\<close> is what is left of \<open>prefix + pod_name\<close> between a run of dots \<open>a\<close> and a
  run of dots \<open>b\<close>, and is empty or neither begins nor ends with a dot. Whenever
  \<open>prefix + pod_name\<close> itself is empty or neither begins nor ends with a dot, the key is
  exactly \<open>prefix + pod_name + "." + zone\<close>.
\<close>

theorem fqdn_for_pod_stripped:
  "(\<exists>a b n. DNS_RECORD_PREFIX cfg @ pod_name = a @ n @ b
       \<and> set a \<subseteq> {CHR ''.''} \<and> set b \<subseteq> {CHR ''.''}
       \<and> (n = [] \<or> (hd n \<noteq> CHR ''.'' \<and> last n \<noteq> CHR ''.''))
       \<and> fqdn_for_pod cfg pod_name = n @ ''.'' @ DNS_ZONE cfg)
   \<and> ((DNS_RECORD_PREFIX cfg @ pod_name = []
        \<or> (hd (DNS_RECORD_PREFIX cfg @ pod_name) \<noteq> CHR ''.''
            \<and> last (DNS_RECORD_PREFIX cfg @ pod_name) \<noteq> CHR ''.''))
       \<longrightarrow> fqdn_for_pod cfg pod_name
             = DNS_RECORD_PREFIX cfg @ pod_name @ ''.'' @ DNS_ZONE cfg)"
  by (rule conjI, rule fqdn_for_pod_decomp, rule impI, rule fqdn_for_pod_plain)

text \<open>
  Witness for C9: with the default configuration the pod \<open>web-0\<close> has the key
  \<open>web-0.example.com.\<close>
\<close>

theorem fqdn_for_pod_stripped_witness:
  "fqdn_for_pod default_config ''web-0'' = ''web-0.example.com.''"
  using fqdn_for_pod_stripped [of default_config "''web-0''"]
  by (simp add: default_config_def)

text \<open>
  Counterexample to C9 as stated: for the pod name \<open>web.\<close> the key is not the plain
  concatenation \<open>web..example.com.\<close>, the trailing dot of the name is stripped.
\<close>

theorem fqdn_for_pod_counterexample:
  "fqdn_for_pod default_config ''web.''
     \<noteq> DNS_RECORD_PREFIX default_config @ ''web.'' @ ''.'' @ DNS_ZONE default_config"
  by (simp add: fqdn_for_pod_def default_config_def strip_of_def)

section \<open>The selector matcher\<close>

lemma match_clauses_all:
  "match_clauses labels cs
     = list_all (\<lambda>c. c = [] \<or> clause_satisfied labels c) (map strip cs)"
proof (induction cs)
  case Nil
  show ?case by simp
next
  case (Cons c cs)
  show ?case
  proof (cases "strip c = []")
    case True
    with Cons show ?thesis by simp
  next
    case False
    show ?thesis
    proof (cases "CHR ''='' \<in> set (strip c)")
      case True
      obtain k v where kv: "split_first (CHR ''='') (strip c) = (k, v)"
        by (cases "split_first (CHR ''='') (strip c)")
      from False True kv Cons show ?thesis
        by (simp add: clause_satisfied_def)
    next
      case nomem: False
      from False nomem Cons show ?thesis
        by (simp add: clause_satisfied_def)
    qed
  qed
qed

text \<open>
  Claim C3, as amended. \<open>_match_selector\<close> holds exactly when every clause of the selector
  is satisfied: the selector is split on commas, each clause is trimmed, an empty clause
  is skipped; a clause with \<open>=\<close> is split at its first \<open>=\<close> into a key and a value,
  \<^emph>\<open>each of which is trimmed again\<close>, and requires the label of that key to be that
  value; a clause without \<open>=\<close> requires its key to be a label. The empty selector has
  the one empty clause, so it matches everything.
\<close>

theorem match_selector_clauses:
  "match_selector labels selector
     = list_all (\<lambda>c. c = [] \<or> clause_satisfied labels c)
         (map strip (str_split (CHR '','') selector))"
proof (cases "selector = []")
  case True
  then show ?thesis
    by (simp add: match_selector_def strip_def strip_of_def)
next
  case False
  then show ?thesis
    by (simp add: match_selector_def match_clauses_all)
qed

text \<open>
  Counterexample to C3 as stated: on the labels \<open>{a: b}\<close> and the selector \<open>a = b\<close> the
  code answers \<open>True\<close> (it trims the key and the value), while the contract as worded
  looks up the key \<open>a\<close> followed by a blank and answers \<open>False\<close>.
\<close>

theorem match_selector_counterexample:
  "match_selector [''a'' \<mapsto> ''b''] ''a = b'' \<noteq> spec_matches [''a'' \<mapsto> ''b''] ''a = b''"
  by code_simp

text \<open>
  Witness for C3: a selector with blanks around \<open>=\<close>, an existence clause and a
  trailing comma, matched by the labels \<open>{app: web, dns: true}\<close>.
\<close>

theorem match_selector_clauses_witness:
  "match_selector [''app'' \<mapsto> ''web'', ''dns'' \<mapsto> ''true''] ''dns = true, app,'' = True"
  unfolding match_selector_clauses [of "[''app'' \<mapsto> ''web'', ''dns'' \<mapsto> ''true'']" "''dns = true, app,''"]
  by code_simp

section \<open>The peer projection\<close>

lemma collect_peers_acc:
  "collect_peers pods acc = acc @ map peer_of (filter has_ip pods)"
  by (induction pods arbitrary: acc) simp_all

lemma build_peers_sort:
  "build_peers pods = sort_key peer_key (map peer_of (filter has_ip pods))"
  by (simp add: build_peers_def collect_peers_acc)

lemma has_ip_the_ip: "has_ip p \<Longrightarrow> the_ip p \<noteq> []"
  by (auto simp: has_ip_def the_ip_def split: option.splits)

text \<open>
  Claim C5. The projection of a pod list holds exactly the pods that report a non-empty
  IP, each once per occurrence and mapped to its name, namespace and IP; it is sorted
  ascending by the pair (namespace, name), pods with equal keys staying in input order;
  and no peer of it has an empty IP.
\<close>

theorem build_peers_projection:
  "mset (build_peers pods) = mset (map peer_of (filter has_ip pods))
   \<and> sorted (map peer_key (build_peers pods))
   \<and> (\<forall>x \<in> set (build_peers pods). ip x \<noteq> [])
   \<and> build_peers pods = sort_key peer_key (map peer_of (filter has_ip pods))"
proof (intro conjI)
  show "mset (build_peers pods) = mset (map peer_of (filter has_ip pods))"
    by (simp add: build_peers_sort)
  show "sorted (map peer_key (build_peers pods))"
    by (simp add: build_peers_sort)
  show "\<forall>x \<in> set (build_peers pods). ip x \<noteq> []"
    by (auto simp: build_peers_sort peer_of_def has_ip_the_ip)
  show "build_peers pods = sort_key peer_key (map peer_of (filter has_ip pods))"
    by (rule build_peers_sort)
qed

lemma filter_key_inj:
  assumes "inj_on f (set xs)" and "k \<in> set xs"
  shows "filter (\<lambda>x. f k = f x) xs = filter (\<lambda>x. k = x) xs"
  using assms by (intro filter_cong) (auto simp: inj_on_def)

lemma filter_eq_mset:
  assumes "mset xs = mset ys"
  shows "filter (\<lambda>x. k = x) xs = filter (\<lambda>x. k = x) ys"
proof -
  have "filter (HOL.eq k) xs = filter (HOL.eq k) ys"
    using assms by (metis replicate_count_mset_eq_filter_eq)
  then show ?thesis .
qed

lemma sort_key_permutation:
  assumes m: "mset ys = mset xs" and inj: "inj_on f (set xs)"
  shows "sort_key f ys = sort_key f xs"
proof (rule properties_for_sort_key)
  show "mset (sort_key f xs) = mset ys" using m by simp
  show "sorted (map f (sort_key f xs))" by simp
  fix k assume k: "k \<in> set (sort_key f xs)"
  then have kx: "k \<in> set xs" by simp
  have sxy: "set ys = set xs" using m by (rule mset_eq_setD)
  have same: "mset (sort_key f xs) = mset ys" using m by simp
  have "filter (\<lambda>x. f k = f x) (sort_key f xs) = filter (\<lambda>x. k = x) (sort_key f xs)"
    using inj k by (intro filter_key_inj) simp_all
  moreover have "filter (\<lambda>x. f k = f x) ys = filter (\<lambda>x. k = x) ys"
    using inj kx sxy by (intro filter_key_inj) simp_all
  ultimately show "filter (\<lambda>x. f k = f x) (sort_key f xs) = filter (\<lambda>x. f k = f x) ys"
    using filter_eq_mset[OF same, of k] by simp
qed

lemma peer_key_inj:
  assumes "\<And>p q. p \<in> set pods \<Longrightarrow> q \<in> set pods \<Longrightarrow> has_ip p \<Longrightarrow> has_ip q
             \<Longrightarrow> meta_namespace (metadata p) = meta_namespace (metadata q)
             \<Longrightarrow> meta_name (metadata p) = meta_name (metadata q)
             \<Longrightarrow> the_ip p = the_ip q"
  shows "inj_on peer_key (set (map peer_of (filter has_ip pods)))"
proof (rule inj_onI)
  fix x y
  assume x: "x \<in> set (map peer_of (filter has_ip pods))"
    and y: "y \<in> set (map peer_of (filter has_ip pods))"
    and k: "peer_key x = peer_key y"
  from x obtain p where p: "p \<in> set pods" "has_ip p" "x = peer_of p" by auto
  from y obtain q where q: "q \<in> set pods" "has_ip q" "y = peer_of q" by auto
  from k p(3) q(3) have ns: "meta_namespace (metadata p) = meta_namespace (metadata q)"
    and nm: "meta_name (metadata p) = meta_name (metadata q)"
    by (simp_all add: peer_key_def peer_of_def)
  from assms[OF p(1) q(1) p(2) q(2) ns nm] have "the_ip p = the_ip q" .
  with ns nm p(3) q(3) show "x = y" by (simp add: peer_of_def)
qed

text \<open>
  Claim C6, as amended. For a pod list in which any two pods that report an IP and agree
  on namespace and name also agree on the IP, every permutation of the list projects to
  the same JSON text (and to the same sink data).
\<close>

theorem build_peers_reordering:
  assumes perm: "mset pods' = mset pods"
    and uniq: "\<And>p q. p \<in> set pods \<Longrightarrow> q \<in> set pods \<Longrightarrow> has_ip p \<Longrightarrow> has_ip q
             \<Longrightarrow> meta_namespace (metadata p) = meta_namespace (metadata q)
             \<Longrightarrow> meta_name (metadata p) = meta_name (metadata q)
             \<Longrightarrow> the_ip p = the_ip q"
  shows "json_dumps (build_peers pods') = json_dumps (build_peers pods)
         \<and> configmap_data cfg (build_peers pods') = configmap_data cfg (build_peers pods)"
proof -
  have "mset (map peer_of (filter has_ip pods')) = mset (map peer_of (filter has_ip pods))"
    using perm by (metis mset_filter mset_map)
  moreover note peer_key_inj[OF uniq]
  ultimately have "build_peers pods' = build_peers pods"
    unfolding build_peers_sort by (intro sort_key_permutation) 
  then show ?thesis by simp
qed

text \<open>
  Counterexample to C6 as stated: two pods with the same namespace and name and
  different IPs. The sort is stable and its key leaves the IP out, so the two orders of
  the input give two different JSON texts.
\<close>

theorem build_peers_reordering_counterexample:
  "mset [example_pod ''a'' ''p'' ''10.0.0.1'', example_pod ''a'' ''p'' ''10.0.0.2'']
     = mset [example_pod ''a'' ''p'' ''10.0.0.2'', example_pod ''a'' ''p'' ''10.0.0.1'']
   \<and> json_dumps (build_peers [example_pod ''a'' ''p'' ''10.0.0.1'', example_pod ''a'' ''p'' ''10.0.0.2''])
     \<noteq> json_dumps (build_peers [example_pod ''a'' ''p'' ''10.0.0.2'', example_pod ''a'' ''p'' ''10.0.0.1''])"
proof
  show "mset [example_pod ''a'' ''p'' ''10.0.0.1'', example_pod ''a'' ''p'' ''10.0.0.2'']
     = mset [example_pod ''a'' ''p'' ''10.0.0.2'', example_pod ''a'' ''p'' ''10.0.0.1'']"
    by (simp add: add.commute)
  have a: "build_peers [example_pod ''a'' ''p'' ''10.0.0.1'', example_pod ''a'' ''p'' ''10.0.0.2'']
     = [\<lparr>name = ''p'', namespace = ''a'', ip = ''10.0.0.1''\<rparr>, \<lparr>name = ''p'', namespace = ''a'', ip = ''10.0.0.2''\<rparr>]"
    by (simp add: build_peers_sort example_pod_def has_ip_def peer_of_def the_ip_def peer_key_def)
  have b: "build_peers [example_pod ''a'' ''p'' ''10.0.0.2'', example_pod ''a'' ''p'' ''10.0.0.1'']
     = [\<lparr>name = ''p'', namespace = ''a'', ip = ''10.0.0.2''\<rparr>, \<lparr>name = ''p'', namespace = ''a'', ip = ''10.0.0.1''\<rparr>]"
    by (simp add: build_peers_sort example_pod_def has_ip_def peer_of_def the_ip_def peer_key_def)
  show "json_dumps (build_peers [example_pod ''a'' ''p'' ''10.0.0.1'', example_pod ''a'' ''p'' ''10.0.0.2''])
     \<noteq> json_dumps (build_peers [example_pod ''a'' ''p'' ''10.0.0.2'', example_pod ''a'' ''p'' ''10.0.0.1''])"
    unfolding a b by code_simp
qed


text \<open>
  Witness for C5: of three pods, out of order and one without an IP, the projection
  keeps the two with an IP, in key order.
\<close>

theorem build_peers_projection_witness:
  "build_peers [example_pod ''a'' ''p2'' ''10.0.0.2'', example_pod ''b'' ''p0'' [],
                example_pod ''a'' ''p1'' ''10.0.0.1'']
     = [\<lparr>name = ''p1'', namespace = ''a'', ip = ''10.0.0.1''\<rparr>,
        \<lparr>name = ''p2'', namespace = ''a'', ip = ''10.0.0.2''\<rparr>]"
proof -
  have "build_peers [example_pod ''a'' ''p2'' ''10.0.0.2'', example_pod ''b'' ''p0'' [],
                example_pod ''a'' ''p1'' ''10.0.0.1'']
     = sort_key peer_key (map peer_of (filter has_ip
         [example_pod ''a'' ''p2'' ''10.0.0.2'', example_pod ''b'' ''p0'' [],
          example_pod ''a'' ''p1'' ''10.0.0.1'']))"
    using build_peers_projection [of "[example_pod ''a'' ''p2'' ''10.0.0.2'',
      example_pod ''b'' ''p0'' [], example_pod ''a'' ''p1'' ''10.0.0.1'']"]
    by (elim conjE)
  then show ?thesis
    by (simp add: example_pod_def has_ip_def peer_of_def the_ip_def peer_key_def)
qed

text \<open>
  Witness for C6: two pods with distinct names, in both orders.
\<close>

theorem build_peers_reordering_witness:
  "json_dumps (build_peers [example_pod ''a'' ''p2'' ''10.0.0.2'', example_pod ''a'' ''p1'' ''10.0.0.1''])
     = json_dumps (build_peers [example_pod ''a'' ''p1'' ''10.0.0.1'', example_pod ''a'' ''p2'' ''10.0.0.2''])"
proof -
  have "json_dumps (build_peers [example_pod ''a'' ''p2'' ''10.0.0.2'', example_pod ''a'' ''p1'' ''10.0.0.1''])
     = json_dumps (build_peers [example_pod ''a'' ''p1'' ''10.0.0.1'', example_pod ''a'' ''p2'' ''10.0.0.2''])
    \<and> configmap_data default_config
          (build_peers [example_pod ''a'' ''p2'' ''10.0.0.2'', example_pod ''a'' ''p1'' ''10.0.0.1''])
      = configmap_data default_config
          (build_peers [example_pod ''a'' ''p1'' ''10.0.0.1'', example_pod ''a'' ''p2'' ''10.0.0.2''])"
  proof (rule build_peers_reordering)
    show "mset [example_pod ''a'' ''p2'' ''10.0.0.2'', example_pod ''a'' ''p1'' ''10.0.0.1'']
       = mset [example_pod ''a'' ''p1'' ''10.0.0.1'', example_pod ''a'' ''p2'' ''10.0.0.2'']"
      by (simp add: add.commute)
  next
    fix p q
    assume "p \<in> set [example_pod ''a'' ''p1'' ''10.0.0.1'', example_pod ''a'' ''p2'' ''10.0.0.2'']"
      and "q \<in> set [example_pod ''a'' ''p1'' ''10.0.0.1'', example_pod ''a'' ''p2'' ''10.0.0.2'']"
      and "meta_name (metadata p) = meta_name (metadata q)"
    then show "the_ip p = the_ip q"
      by (auto simp: example_pod_def)
  qed
  then show ?thesis by (rule conjunct1)
qed

section \<open>Deleting a record\<close>

lemma starts_with_iff: "starts_with p s \<longleftrightarrow> (\<exists>post. s = p @ post)"
  by (induction p s rule: starts_with.induct) auto

lemma contains_iff: "contains p s \<longleftrightarrow> (\<exists>pre post. s = pre @ p @ post)"
proof (induction s)
  case Nil
  show ?case by auto
next
  case (Cons c cs)
  show ?case
  proof
    assume "contains p (c # cs)"
    then consider "starts_with p (c # cs)" | "contains p cs" by auto
    then show "\<exists>pre post. c # cs = pre @ p @ post"
    proof cases
      case 1
      then obtain post where "c # cs = p @ post" by (auto simp: starts_with_iff)
      then have "c # cs = [] @ p @ post" by simp
      then show ?thesis by (intro exI)
    next
      case 2
      with Cons obtain pre post where "cs = pre @ p @ post" by auto
      then have "c # cs = (c # pre) @ p @ post" by simp
      then show ?thesis by (intro exI)
    qed
  next
    assume "\<exists>pre post. c # cs = pre @ p @ post"
    then obtain pre post where e: "c # cs = pre @ p @ post" by auto
    show "contains p (c # cs)"
    proof (cases pre)
      case Nil
      with e have "starts_with p (c # cs)" by (auto simp: starts_with_iff)
      then show ?thesis by simp
    next
      case (Cons a pre')
      with e have "cs = pre' @ p @ post" by simp
      with Cons.IH have "contains p cs" by auto
      then show ?thesis by simp
    qed
  qed
qed

lemma contains_lower_iff:
  "contains p (lower s) \<longleftrightarrow> (\<exists>pre mid post. s = pre @ mid @ post \<and> lower mid = p)"
proof
  assume "contains p (lower s)"
  then obtain a b where "map lower_char s = a @ p @ b"
    by (auto simp: contains_iff lower_def)
  then obtain pre rest where s: "s = pre @ rest" and "p @ b = map lower_char rest"
    by (auto simp: map_eq_append_conv)
  then obtain mid post where "rest = mid @ post" and "map lower_char mid = p"
    by (auto simp: append_eq_map_conv)
  with s have "s = pre @ mid @ post \<and> lower mid = p" by (simp add: lower_def)
  then show "\<exists>pre mid post. s = pre @ mid @ post \<and> lower mid = p" by (intro exI)
next
  assume "\<exists>pre mid post. s = pre @ mid @ post \<and> lower mid = p"
  then obtain pre mid post where "s = pre @ mid @ post" and "lower mid = p" by auto
  then have "lower s = lower pre @ p @ lower post" by (auto simp: lower_def)
  then show "contains p (lower s)" unfolding contains_iff by (intro exI)
qed

text \<open>
  Claim C8. When the DNS API answers the PATCH of \<open>pdns_delete_a_record\<close> with a status
  of 400 or more, the delete succeeds if some substring of the body reads \<open>not found\<close>
  once lower-cased, and raises the \<open>RuntimeError\<close> that carries the status and the body
  for every other such response.
\<close>

theorem pdns_delete_not_found:
  assumes "requests_patch env (t @ [RequestsPatch (zone_url cfg) (delete_payload fqdn)]) = Inr r"
    and "400 \<le> status_code r"
  shows "fst (pdns_delete_a_record cfg env fqdn t)
         = (if (\<exists>pre mid post. resp_text r = pre @ mid @ post \<and> lower mid = ''not found'')
            then Inr ()
            else Inl (RuntimeError (''PDNS delete failed '' @ str_int (status_code r)
                                    @ '': '' @ resp_text r)))"
  using assms
  by (simp add: pdns_delete_a_record_def Let_def contains_lower_iff del: contains.simps)

text \<open>
  Witness for C8: a 422 whose body says \<open>Not Found\<close> in mixed case.
\<close>

theorem pdns_delete_not_found_witness:
  "fst (pdns_delete_a_record default_config
          (env_answering \<lparr> status_code = 422, resp_text = ''RRset Not Found'' \<rparr>)
          ''web-0.example.com.'' [])
     = Inr ()"
proof -
  have 1: "requests_patch (env_answering \<lparr> status_code = 422, resp_text = ''RRset Not Found'' \<rparr>)
             ([] @ [RequestsPatch (zone_url default_config) (delete_payload ''web-0.example.com.'')])
           = Inr \<lparr> status_code = 422, resp_text = ''RRset Not Found'' \<rparr>"
    by (simp add: env_answering_def)
  have 2: "400 \<le> status_code \<lparr> status_code = 422, resp_text = ''RRset Not Found'' \<rparr>"
    by simp
  have 3: "resp_text \<lparr> status_code = 422, resp_text = ''RRset Not Found'' \<rparr>
             = ''RRset '' @ ''Not Found'' @ [] \<and> lower ''Not Found'' = ''not found''"
    by code_simp
  then have "\<exists>pre mid post. resp_text \<lparr> status_code = 422, resp_text = ''RRset Not Found'' \<rparr>
             = pre @ mid @ post \<and> lower mid = ''not found''"
    by (intro exI)
  with pdns_delete_not_found [OF 1 2] show ?thesis by simp
qed

section \<open>Upsert with retry\<close>

lemma n_patch_append [simp]: "n_patch (t @ d) = n_patch t + n_patch d"
  by (simp add: n_patch_def)

lemma n_patch_Nil [simp]: "n_patch [] = 0"
  by (simp add: n_patch_def)

lemma n_patch_single [simp]: "n_patch [c] = (if is_patch c then 1 else 0)"
  by (simp add: n_patch_def)

lemma upsert_a_record_trace:
  "snd (pdns_upsert_a_record cfg env f a ttl t)
     = t @ [RequestsPatch (zone_url cfg) (upsert_payload f a ttl)]"
  by (simp add: pdns_upsert_a_record_def Let_def split: sum.splits)



lemma time_sleep_ok: "0 \<le> backoff \<Longrightarrow> time_sleep (backoff * real (i + 1)) = Inr ()"
  by (simp add: time_sleep_def not_less)








section \<open>The sink document\<close>






section \<open>What each operation adds to the trace\<close>

lemma upsert_a_record_pair:
  "pdns_upsert_a_record cfg env f a ttl t
     = (fst (pdns_upsert_a_record cfg env f a ttl t),
        t @ [RequestsPatch (zone_url cfg) (upsert_payload f a ttl)])"
  using upsert_a_record_trace[of cfg env f a ttl t]
  by (cases "pdns_upsert_a_record cfg env f a ttl t") simp

lemma upsert_attempts_Cons:
  "upsert_attempts cfg env f a ttl backoff (i # rest) last_exn t =
     (case fst (pdns_upsert_a_record cfg env f a ttl t) of
        Inr u \<Rightarrow> (Inr True, t @ [RequestsPatch (zone_url cfg) (upsert_payload f a ttl)])
      | Inl e \<Rightarrow>
          (case time_sleep (backoff * real (i + 1)) of
             Inl e' \<Rightarrow> (Inl e', t @ [RequestsPatch (zone_url cfg) (upsert_payload f a ttl),
                                     Sleep (backoff * real (i + 1))])
           | Inr u \<Rightarrow> upsert_attempts cfg env f a ttl backoff rest (Some e)
                       (t @ [RequestsPatch (zone_url cfg) (upsert_payload f a ttl),
                             Sleep (backoff * real (i + 1))])))"
  by (subst upsert_attempts.simps, subst upsert_a_record_pair)
     (simp add: Let_def split: sum.splits)

lemma upsert_attempts_never_raises:
  "0 \<le> backoff \<Longrightarrow> \<exists>b. fst (upsert_attempts cfg env f a ttl backoff idxs last_exn t) = Inr b"
proof (induction idxs arbitrary: last_exn t)
  case Nil
  show ?case by auto
next
  case (Cons i rest)
  show ?case
  proof (cases "fst (pdns_upsert_a_record cfg env f a ttl t)")
    case (Inl e)
    then show ?thesis
      using Cons.IH[OF Cons.prems] time_sleep_ok[OF Cons.prems, of i]
      by (simp add: upsert_attempts_Cons del: upsert_attempts.simps)
  next
    case (Inr u)
    then show ?thesis
      by (auto simp: upsert_attempts_Cons simp del: upsert_attempts.simps)
  qed
qed

lemma upsert_attempts_trace:
  "\<exists>d k. snd (upsert_attempts cfg env f a ttl backoff idxs last_exn t) = t @ d
       \<and> (\<forall>c\<in>set d. \<not> is_start c)
       \<and> filter is_patch d = replicate k (RequestsPatch (zone_url cfg) (upsert_payload f a ttl))
       \<and> k \<le> length idxs \<and> (idxs \<noteq> [] \<longrightarrow> 1 \<le> k)"
proof (induction idxs arbitrary: last_exn t)
  case Nil
  have "snd (upsert_attempts cfg env f a ttl backoff [] last_exn t)
          = t @ [Print (''[pdns] upsert failed after retries for '' @ f @ '': ''
                  @ (case last_exn of None \<Rightarrow> ''None'' | Some e \<Rightarrow> str_exn e))]"
    by simp
  then show ?case
    by (intro exI[of _ "[Print (''[pdns] upsert failed after retries for '' @ f @ '': ''
                  @ (case last_exn of None \<Rightarrow> ''None'' | Some e \<Rightarrow> str_exn e))]"]
              exI[of _ 0]) simp
next
  case (Cons i rest)
  let ?P = "RequestsPatch (zone_url cfg) (upsert_payload f a ttl)"
  let ?S = "Sleep (backoff * real (i + 1))"
  show ?case
  proof (cases "fst (pdns_upsert_a_record cfg env f a ttl t)")
    case (Inr u)
    then have "snd (upsert_attempts cfg env f a ttl backoff (i # rest) last_exn t) = t @ [?P]"
      by (simp add: upsert_attempts_Cons del: upsert_attempts.simps)
    then show ?thesis
      by (intro exI[of _ "[?P]"] exI[of _ 1]) simp
  next
    case (Inl e)
    show ?thesis
    proof (cases "time_sleep (backoff * real (i + 1))")
      case bad: (Inl e')
      with Inl have "snd (upsert_attempts cfg env f a ttl backoff (i # rest) last_exn t)
                       = t @ [?P, ?S]"
        by (simp add: upsert_attempts_Cons del: upsert_attempts.simps)
      then show ?thesis
        by (intro exI[of _ "[?P, ?S]"] exI[of _ 1]) simp
    next
      case ok: (Inr u)
      from Cons.IH[of "Some e" "t @ [?P, ?S]"]
      obtain d k where d: "snd (upsert_attempts cfg env f a ttl backoff rest (Some e) (t @ [?P, ?S]))
                             = (t @ [?P, ?S]) @ d"
        and q: "\<forall>c\<in>set d. \<not> is_start c"
        and p: "filter is_patch d = replicate k ?P"
        and k: "k \<le> length rest"
        by (elim exE conjE)
      from Inl ok d have "snd (upsert_attempts cfg env f a ttl backoff (i # rest) last_exn t)
                       = t @ ([?P, ?S] @ d)"
        by (simp add: upsert_attempts_Cons del: upsert_attempts.simps)
      moreover have "\<forall>c\<in>set ([?P, ?S] @ d). \<not> is_start c" using q by simp
      moreover have "filter is_patch ([?P, ?S] @ d) = replicate (Suc k) ?P" using p by simp
      moreover have "Suc k \<le> length (i # rest)" using k by simp
      ultimately show ?thesis
        by (intro exI[of _ "[?P, ?S] @ d"] exI[of _ "Suc k"]) simp
    qed
  qed
qed


lemma upsert_with_retry_default:
  "\<exists>b d k. pdns_upsert_with_retry cfg env f a ttl 6 2 t = (Inr b, t @ d)
       \<and> (\<forall>c\<in>set d. \<not> is_start c)
       \<and> filter is_patch d = replicate k (RequestsPatch (zone_url cfg) (upsert_payload f a ttl))
       \<and> 1 \<le> k \<and> k \<le> 6"
proof -
  have len: "length [0..<nat 6] = 6" and ne: "[0..<nat 6] \<noteq> []" by simp_all
  obtain b where b: "fst (upsert_attempts cfg env f a ttl 2 [0..<nat 6] None t) = Inr b"
    using upsert_attempts_never_raises[of 2 cfg env f a ttl "[0..<nat 6]" None t] by auto
  obtain d k where d: "snd (upsert_attempts cfg env f a ttl 2 [0..<nat 6] None t) = t @ d"
    and q: "\<forall>c\<in>set d. \<not> is_start c"
    and p: "filter is_patch d = replicate k (RequestsPatch (zone_url cfg) (upsert_payload f a ttl))"
    and k1: "k \<le> length [0..<nat 6]" and k2: "[0..<nat 6] \<noteq> [] \<longrightarrow> 1 \<le> k"
    using upsert_attempts_trace[of cfg env f a ttl 2 "[0..<nat 6]" None t]
    by (elim exE conjE)
  have "pdns_upsert_with_retry cfg env f a ttl 6 2 t = (Inr b, t @ d)"
    unfolding pdns_upsert_with_retry_def using b d
    by (cases "upsert_attempts cfg env f a ttl 2 [0..<nat 6] None t") simp
  moreover have "1 \<le> k" using k2 ne by blast
  moreover have "k \<le> 6" using k1 len by simp
  ultimately show ?thesis using q p by (intro exI[of _ b] exI[of _ d] exI[of _ k]) simp
qed

lemma list_call_kind: "is_list_call c \<Longrightarrow> \<not> is_start c \<and> \<not> is_patch c \<and> \<not> is_sink_call c"
  by (cases c) simp_all

lemma sink_call_kind: "is_sink_call c \<Longrightarrow> \<not> is_start c \<and> \<not> is_patch c"
  by (cases c) simp_all

lemma list_namespaces_trace:
  "\<exists>d. snd (list_namespaces cfg env nss pods t) = t @ d \<and> (\<forall>c\<in>set d. is_list_call c)"
proof (induction nss arbitrary: pods t)
  case Nil
  show ?case by simp
next
  case (Cons ns rest)
  let ?L = "ListNamespacedPod ns (SOURCE_LABEL_SELECTOR cfg)"
  show ?case
  proof (cases "list_namespaced_pod env (t @ [?L])")
    case (Inl e)
    then have "snd (list_namespaces cfg env (ns # rest) pods t) = t @ [?L]"
      by (simp add: Let_def)
    then show ?thesis by (intro exI[of _ "[?L]"]) simp
  next
    case (Inr items)
    from Cons.IH[of "pods @ items" "t @ [?L]"]
    obtain d where d: "snd (list_namespaces cfg env rest (pods @ items) (t @ [?L])) = (t @ [?L]) @ d"
      and l: "\<forall>c\<in>set d. is_list_call c" by (elim exE conjE)
    from Inr d have "snd (list_namespaces cfg env (ns # rest) pods t) = t @ (?L # d)"
      by (simp add: Let_def)
    then show ?thesis using l by (intro exI[of _ "?L # d"]) simp
  qed
qed

lemma list_source_pods_trace:
  "\<exists>d. snd (list_source_pods cfg env t) = t @ d \<and> (\<forall>c\<in>set d. is_list_call c)"
proof (cases "WATCH_NAMESPACES cfg \<noteq> []")
  case True
  then show ?thesis
    using list_namespaces_trace[of cfg env "WATCH_NAMESPACES cfg" "[]" t]
    by (simp add: list_source_pods_def)
next
  case False
  then have "snd (list_source_pods cfg env t)
               = t @ [ListPodForAllNamespaces (SOURCE_LABEL_SELECTOR cfg)]"
    by (simp add: list_source_pods_def Let_def)
  then show ?thesis
    by (intro exI[of _ "[ListPodForAllNamespaces (SOURCE_LABEL_SELECTOR cfg)]"]) simp
qed

lemma pdns_ready_trace:
  "snd (pdns_ready cfg env t)
     = t @ [RequestsGet (PDNS_API_URL cfg @ ''/api/v1/servers/'' @ PDNS_SERVER_ID cfg)]"
  by (simp add: pdns_ready_def Let_def split: sum.splits)


lemma upsert_configmap_trace:
  "\<exists>d. snd (upsert_configmap cfg env peers t)
          = t @ ReadNamespacedConfigMap (CONFIGMAP_NAME cfg) (CONFIGMAP_NAMESPACE cfg) # d
       \<and> (\<forall>c\<in>set d. is_sink_call c)
       \<and> (fst (upsert_configmap cfg env peers t) = Inr ()
            \<longrightarrow> d \<noteq> [] \<and> writes_data (configmap_data cfg peers) (last d))"
  by (auto simp: upsert_configmap_def replace_existing_def Let_def
           split: sum.splits exn.splits)

lemma upsert_peers_trace:
  "\<exists>d. upsert_peers cfg env peers t = (Inr (), t @ d) \<and> (\<forall>c\<in>set d. \<not> is_start c)"
proof (induction peers arbitrary: t)
  case Nil
  show ?case by simp
next
  case (Cons x rest)
  obtain b d k where r: "pdns_upsert_with_retry cfg env (fqdn_for_pod cfg (name x)) (ip x)
                           (DNS_TTL cfg) 6 2 t = (Inr b, t @ d)"
    and q: "\<forall>c\<in>set d. \<not> is_start c"
    using upsert_with_retry_default[of cfg env "fqdn_for_pod cfg (name x)" "ip x" "DNS_TTL cfg" t]
    by (elim exE conjE)
  from Cons.IH[of "t @ d"]
  obtain d' where r': "upsert_peers cfg env rest (t @ d) = (Inr (), (t @ d) @ d')"
    and q': "\<forall>c\<in>set d'. \<not> is_start c"
    by (elim exE conjE)
  have "upsert_peers cfg env (x # rest) t = (Inr (), t @ (d @ d'))"
    using r r' by (simp add: Let_def)
  then show ?case using q q' by (intro exI[of _ "d @ d'"]) auto
qed

lemma sync_dns_not_ready:
  "fst (pdns_ready cfg env t) = False \<Longrightarrow>
   sync_dns cfg env peers t
     = (Inr (), t @ [RequestsGet (PDNS_API_URL cfg @ ''/api/v1/servers/'' @ PDNS_SERVER_ID cfg),
                     Print ''[pdns] API not ready; will retry later''])"
  using pdns_ready_trace[of cfg env t]
  by (cases "pdns_ready cfg env t") (simp add: sync_dns_def)

lemma sync_dns_trace:
  "\<exists>d. sync_dns cfg env peers t = (Inr (), t @ d) \<and> (\<forall>c\<in>set d. \<not> is_start c)"
proof (cases "fst (pdns_ready cfg env t)")
  case False
  then show ?thesis
    by (simp add: sync_dns_not_ready)
next
  case True
  let ?G = "RequestsGet (PDNS_API_URL cfg @ ''/api/v1/servers/'' @ PDNS_SERVER_ID cfg)"
  from True have p: "pdns_ready cfg env t = (True, t @ [?G])"
    using pdns_ready_trace[of cfg env t] by (cases "pdns_ready cfg env t") simp
  obtain d where d: "upsert_peers cfg env peers (t @ [?G]) = (Inr (), (t @ [?G]) @ d)"
    and q: "\<forall>c\<in>set d. \<not> is_start c"
    using upsert_peers_trace[of cfg env peers "t @ [?G]"] by (elim exE conjE)
  have "sync_dns cfg env peers t = (Inr (), t @ (?G # d))"
    using p d by (simp add: sync_dns_def)
  then show ?thesis using q by (intro exI[of _ "?G # d"]) simp
qed


lemma reconcile_all_outcome:
  "fst (reconcile_all cfg env reason t)
     = (case list_source_pods cfg env (t @ [Print (''[reconcile] start ('' @ reason @ '')'')]) of
          (Inl e, t1) \<Rightarrow> Inl e
        | (Inr pods, t1) \<Rightarrow>
            fst (upsert_configmap cfg env (build_peers pods)
                   (snd (sync_dns cfg env (build_peers pods) t1))))"
proof (cases "list_source_pods cfg env (t @ [Print (''[reconcile] start ('' @ reason @ '')'')])")
  case (Pair r t1)
  show ?thesis
  proof (cases r)
    case (Inl e)
    with Pair show ?thesis by (simp add: reconcile_all_def Let_def)
  next
    case (Inr pods)
    obtain d where s: "sync_dns cfg env (build_peers pods) t1 = (Inr (), t1 @ d)"
      using sync_dns_trace[of cfg env "build_peers pods" t1] by (elim exE conjE)
    show ?thesis
      using Pair Inr s
      by (cases "upsert_configmap cfg env (build_peers pods) (t1 @ d)")
         (simp add: reconcile_all_def Let_def split: sum.splits)
  qed
qed

lemma reconcile_all_trace:
  "\<exists>d. snd (reconcile_all cfg env reason t)
          = t @ Print (''[reconcile] start ('' @ reason @ '')'') # d
       \<and> (\<forall>c\<in>set d. \<not> is_start c)"
proof -
  let ?S = "Print (''[reconcile] start ('' @ reason @ '')'')"
  obtain d1 where l: "snd (list_source_pods cfg env (t @ [?S])) = (t @ [?S]) @ d1"
    and q1: "\<forall>c\<in>set d1. is_list_call c"
    using list_source_pods_trace[of cfg env "t @ [?S]"] by (elim exE conjE)
  from q1 have n1: "\<forall>c\<in>set d1. \<not> is_start c" using list_call_kind by blast
  show ?thesis
  proof (cases "fst (list_source_pods cfg env (t @ [?S]))")
    case (Inl e)
    with l have "list_source_pods cfg env (t @ [?S]) = (Inl e, (t @ [?S]) @ d1)"
      by (cases "list_source_pods cfg env (t @ [?S])") simp
    then have "snd (reconcile_all cfg env reason t) = t @ ?S # d1"
      by (simp add: reconcile_all_def Let_def)
    with n1 show ?thesis by (intro exI[of _ d1]) simp
  next
    case (Inr pods)
    with l have lp: "list_source_pods cfg env (t @ [?S]) = (Inr pods, (t @ [?S]) @ d1)"
      by (cases "list_source_pods cfg env (t @ [?S])") simp
    let ?t1 = "(t @ [?S]) @ d1"
    obtain d2 where s: "sync_dns cfg env (build_peers pods) ?t1 = (Inr (), ?t1 @ d2)"
      and n2: "\<forall>c\<in>set d2. \<not> is_start c"
      using sync_dns_trace[of cfg env "build_peers pods" ?t1] by (elim exE conjE)
    let ?t2 = "?t1 @ d2"
    let ?R = "ReadNamespacedConfigMap (CONFIGMAP_NAME cfg) (CONFIGMAP_NAMESPACE cfg)"
    obtain d3 where c: "snd (upsert_configmap cfg env (build_peers pods) ?t2) = ?t2 @ ?R # d3"
      and q3: "\<forall>c\<in>set d3. is_sink_call c"
      using upsert_configmap_trace[of cfg env "build_peers pods" ?t2] by (elim exE conjE)
    from q3 have n3: "\<forall>c\<in>set d3. \<not> is_start c" using sink_call_kind by blast
    show ?thesis
    proof (cases "fst (upsert_configmap cfg env (build_peers pods) ?t2)")
      case (Inl e)
      with c have "upsert_configmap cfg env (build_peers pods) ?t2 = (Inl e, ?t2 @ ?R # d3)"
        by (cases "upsert_configmap cfg env (build_peers pods) ?t2") simp
      with lp s have "snd (reconcile_all cfg env reason t) = t @ ?S # (d1 @ d2 @ ?R # d3)"
        by (simp add: reconcile_all_def Let_def)
      moreover have "\<forall>c\<in>set (d1 @ d2 @ ?R # d3). \<not> is_start c"
        using n1 n2 n3 by auto
      ultimately show ?thesis by (intro exI[of _ "d1 @ d2 @ ?R # d3"]) simp
    next
      case (Inr u)
      let ?D = "Print (''[reconcile] done peers='' @ str_int (int (length (build_peers pods))))"
      from Inr c have "upsert_configmap cfg env (build_peers pods) ?t2 = (Inr (), ?t2 @ ?R # d3)"
        by (cases "upsert_configmap cfg env (build_peers pods) ?t2") simp
      with lp s have "snd (reconcile_all cfg env reason t)
                        = t @ ?S # (d1 @ d2 @ ?R # d3 @ [?D])"
        by (simp add: reconcile_all_def Let_def)
      moreover have "\<forall>c\<in>set (d1 @ d2 @ ?R # d3 @ [?D]). \<not> is_start c"
        using n1 n2 n3 by auto
      ultimately show ?thesis by (intro exI[of _ "d1 @ d2 @ ?R # d3 @ [?D]"]) simp
    qed
  qed
qed

lemma reconcile_guarded_trace:
  "\<exists>d. reconcile_guarded cfg env reason t
          = (Inr (), t @ Print (''[reconcile] start ('' @ reason @ '')'') # d)
       \<and> (\<forall>c\<in>set d. \<not> is_start c)"
proof -
  let ?S = "Print (''[reconcile] start ('' @ reason @ '')'')"
  obtain d where d: "snd (reconcile_all cfg env reason t) = t @ ?S # d"
    and q: "\<forall>c\<in>set d. \<not> is_start c"
    using reconcile_all_trace[of cfg env reason t] by (elim exE conjE)
  show ?thesis
  proof (cases "fst (reconcile_all cfg env reason t)")
    case (Inl e)
    with d have "reconcile_all cfg env reason t = (Inl e, t @ ?S # d)"
      by (cases "reconcile_all cfg env reason t") simp
    then have "reconcile_guarded cfg env reason t = (Inr (), t @ ?S # (d @ [PrintExc e]))"
      by (simp add: reconcile_guarded_def)
    then show ?thesis using q by (intro exI[of _ "d @ [PrintExc e]"]) simp
  next
    case (Inr u)
    with d have "reconcile_all cfg env reason t = (Inr (), t @ ?S # d)"
      by (cases "reconcile_all cfg env reason t") simp
    then have "reconcile_guarded cfg env reason t = (Inr (), t @ ?S # d)"
      by (simp add: reconcile_guarded_def)
    then show ?thesis using q by (intro exI[of _ d]) simp
  qed
qed

section \<open>Where errors are caught\<close>

text \<open>
  Claim C1, as amended. \<open>reconcile_all\<close> has no handler of its own: its outcome is the
  error of the pod listing when that raises, and otherwise the outcome of
  \<open>upsert_configmap\<close>, so an error of the cluster API or of the sink leaves it (the DNS
  step in between raises nothing). It is each call site that swallows the error: the
  guarded call \<open>try: reconcile_all(...) except Exception\<close> never raises, hence neither do
  the two event handlers and the dispatcher, and a turn of the periodic loop can fail
  only in its final \<open>time.sleep\<close>.
\<close>

theorem reconcile_all_propagates:
  "fst (reconcile_all cfg env reason t)
     = (case list_source_pods cfg env (t @ [Print (''[reconcile] start ('' @ reason @ '')'')]) of
          (Inl e, t1) \<Rightarrow> Inl e
        | (Inr pods, t1) \<Rightarrow>
            fst (upsert_configmap cfg env (build_peers pods)
                   (snd (sync_dns cfg env (build_peers pods) t1))))
   \<and> fst (reconcile_guarded cfg env reason t) = Inr ()
   \<and> fst (handle_pod_added cfg env obj t) = Inr ()
   \<and> fst (handle_pod_deleted cfg env obj t) = Inr ()
   \<and> fst (dispatch_event cfg env ev t) = Inr ()
   \<and> fst (periodic_reconciler_step cfg env t) = time_sleep (real_of_int (RECONCILE_INTERVAL cfg))"
proof -
  have g: "fst (reconcile_guarded cfg env r s) = Inr ()" for r s
    using reconcile_guarded_trace[of cfg env r s] by auto
  have a: "fst (handle_pod_added cfg env ob t) = Inr ()" for ob
    by (cases ob) (simp_all add: handle_pod_added_def Let_def g)
  have d: "fst (handle_pod_deleted cfg env ob t) = Inr ()" for ob
    by (cases ob) (simp_all add: handle_pod_deleted_def Let_def g)
  have e: "fst (dispatch_event cfg env ev t) = Inr ()"
    by (simp add: dispatch_event_def a d)
  have p: "fst (periodic_reconciler_step cfg env t)
             = time_sleep (real_of_int (RECONCILE_INTERVAL cfg))"
    by (simp add: periodic_reconciler_step_def Let_def)
  show ?thesis
    by (intro conjI reconcile_all_outcome g a d e p)
qed

text \<open>
  Counterexample to C1 as stated: with the cluster API unreachable, \<open>reconcile_all\<close>
  raises the error of the pod listing to its caller.
\<close>

theorem reconcile_all_counterexample:
  "fst (reconcile_all default_config env_offline ''periodic'' [])
     = Inl (OtherException ''connection refused'')"
  by (simp add: reconcile_all_def list_source_pods_def default_config_def env_offline_def Let_def)

text \<open>
  Witness for C1: with every collaborator unreachable, the dispatch of an event for a
  selected pod and the guarded startup pass both return normally.
\<close>

theorem reconcile_all_propagates_witness:
  "fst (dispatch_event default_config env_offline
          \<lparr> ev_type = Some ''ADDED'',
            ev_object = PodObject (example_pod ''a'' ''p1'' ''10.0.0.1'') \<rparr> []) = Inr ()
   \<and> fst (reconcile_guarded default_config env_offline ''startup'' []) = Inr ()"
  using reconcile_all_propagates [of default_config env_offline "''startup''" "[]"
      "PodObject (example_pod ''a'' ''p1'' ''10.0.0.1'')"
      "\<lparr> ev_type = Some ''ADDED'',
            ev_object = PodObject (example_pod ''a'' ''p1'' ''10.0.0.1'') \<rparr>"]
  by (elim conjE) (intro conjI)

section \<open>A pass while the DNS API is not ready\<close>

text \<open>
  Claim C7, as amended. Take a pass whose pod listing succeeds and whose readiness probe
  reports not-ready. The pass issues no PATCH to the DNS API at all; right after the probe
  and the deferral notice it reads the sink document, that is, it publishes whatever the
  probe said; its outcome is the outcome of \<open>upsert_configmap\<close> on the projected peers,
  so it raises only when the sink raises; and when it returns normally, a replace or a
  create carrying the data of the projected peers has been sent to the sink.
\<close>

theorem reconcile_all_dns_not_ready:
  assumes l: "list_source_pods cfg env (t @ [Print (''[reconcile] start ('' @ reason @ '')'')])
                = (Inr pods, t1)"
    and r: "fst (pdns_ready cfg env t1) = False"
  shows "filter is_patch (snd (reconcile_all cfg env reason t)) = filter is_patch t
       \<and> fst (reconcile_all cfg env reason t)
           = fst (upsert_configmap cfg env (build_peers pods)
                    (t1 @ [RequestsGet (PDNS_API_URL cfg @ ''/api/v1/servers/'' @ PDNS_SERVER_ID cfg),
                           Print ''[pdns] API not ready; will retry later'']))
       \<and> (\<exists>d. snd (reconcile_all cfg env reason t)
                  = t1 @ [RequestsGet (PDNS_API_URL cfg @ ''/api/v1/servers/'' @ PDNS_SERVER_ID cfg),
                          Print ''[pdns] API not ready; will retry later'',
                          ReadNamespacedConfigMap (CONFIGMAP_NAME cfg) (CONFIGMAP_NAMESPACE cfg)] @ d
              \<and> (fst (reconcile_all cfg env reason t) = Inr ()
                   \<longrightarrow> (\<exists>c\<in>set d. writes_data (configmap_data cfg (build_peers pods)) c)))"
proof -
  let ?S = "Print (''[reconcile] start ('' @ reason @ '')'')"
  let ?G = "RequestsGet (PDNS_API_URL cfg @ ''/api/v1/servers/'' @ PDNS_SERVER_ID cfg)"
  let ?N = "Print ''[pdns] API not ready; will retry later''"
  let ?R = "ReadNamespacedConfigMap (CONFIGMAP_NAME cfg) (CONFIGMAP_NAMESPACE cfg)"
  let ?D = "Print (''[reconcile] done peers='' @ str_int (int (length (build_peers pods))))"
  let ?t2 = "t1 @ [?G, ?N]"
  obtain d1 where t1: "t1 = (t @ [?S]) @ d1" and q1: "\<forall>c\<in>set d1. is_list_call c"
    using list_source_pods_trace[of cfg env "t @ [?S]"] l by auto
  have p1: "filter is_patch t1 = filter is_patch t"
  proof -
    have "filter is_patch d1 = []" using q1 list_call_kind by (auto simp: filter_empty_conv)
    then show ?thesis by (simp add: t1)
  qed
  have s: "sync_dns cfg env (build_peers pods) t1 = (Inr (), ?t2)"
    using sync_dns_not_ready[OF r] by simp
  obtain d3 where c: "snd (upsert_configmap cfg env (build_peers pods) ?t2) = ?t2 @ ?R # d3"
    and q3: "\<forall>c\<in>set d3. is_sink_call c"
    and w: "fst (upsert_configmap cfg env (build_peers pods) ?t2) = Inr ()
            \<longrightarrow> d3 \<noteq> [] \<and> writes_data (configmap_data cfg (build_peers pods)) (last d3)"
    using upsert_configmap_trace[of cfg env "build_peers pods" ?t2] by (elim exE conjE)
  have p3: "filter is_patch d3 = []" using q3 sink_call_kind by (auto simp: filter_empty_conv)
  show ?thesis
  proof (cases "fst (upsert_configmap cfg env (build_peers pods) ?t2)")
    case (Inl e)
    with c have u: "upsert_configmap cfg env (build_peers pods) ?t2 = (Inl e, ?t2 @ ?R # d3)"
      by (cases "upsert_configmap cfg env (build_peers pods) ?t2") simp
    have ra: "reconcile_all cfg env reason t = (Inl e, ?t2 @ ?R # d3)"
      using l s u by (simp add: reconcile_all_def Let_def)
    have "filter is_patch (snd (reconcile_all cfg env reason t)) = filter is_patch t"
      using p1 p3 by (simp add: ra)
    moreover have "fst (reconcile_all cfg env reason t)
                     = fst (upsert_configmap cfg env (build_peers pods) ?t2)"
      using Inl by (simp add: ra)
    moreover have "snd (reconcile_all cfg env reason t) = t1 @ [?G, ?N, ?R] @ d3
              \<and> (fst (reconcile_all cfg env reason t) = Inr ()
                   \<longrightarrow> (\<exists>c\<in>set d3. writes_data (configmap_data cfg (build_peers pods)) c))"
      by (simp add: ra)
    ultimately show ?thesis by (intro conjI exI[of _ d3]) simp_all
  next
    case (Inr u')
    with c have u: "upsert_configmap cfg env (build_peers pods) ?t2 = (Inr (), ?t2 @ ?R # d3)"
      by (cases "upsert_configmap cfg env (build_peers pods) ?t2") simp
    have ra: "reconcile_all cfg env reason t = (Inr (), (?t2 @ ?R # d3) @ [?D])"
      using l s u by (simp add: reconcile_all_def Let_def)
    from w u have "d3 \<noteq> []" and "writes_data (configmap_data cfg (build_peers pods)) (last d3)"
      by simp_all
    then have ex: "\<exists>c\<in>set (d3 @ [?D]). writes_data (configmap_data cfg (build_peers pods)) c"
      using last_in_set[of d3] by auto
    have "filter is_patch (snd (reconcile_all cfg env reason t)) = filter is_patch t"
      using p1 p3 by (simp add: ra)
    moreover have "fst (reconcile_all cfg env reason t)
                     = fst (upsert_configmap cfg env (build_peers pods) ?t2)"
      using Inr by (simp add: ra)
    moreover have "snd (reconcile_all cfg env reason t) = t1 @ [?G, ?N, ?R] @ (d3 @ [?D])
              \<and> (fst (reconcile_all cfg env reason t) = Inr ()
                   \<longrightarrow> (\<exists>c\<in>set (d3 @ [?D]). writes_data (configmap_data cfg (build_peers pods)) c))"
      using ex by (simp add: ra)
    ultimately show ?thesis by (intro conjI exI[of _ "d3 @ [?D]"]) simp_all
  qed
qed


text \<open>
  Counterexample to C7 as stated: the pods are listed, the probe reports not-ready and
  the sink cannot be reached. The pass raises, and no write carrying the peer data has
  been sent.
\<close>

theorem reconcile_all_dns_not_ready_counterexample:
  "fst (list_source_pods default_config (env_sink_down [example_pod ''a'' ''p1'' ''10.0.0.1''])
          [Print ''[reconcile] start (periodic)''])
     = Inr [example_pod ''a'' ''p1'' ''10.0.0.1'']
   \<and> fst (pdns_ready default_config (env_sink_down [example_pod ''a'' ''p1'' ''10.0.0.1''])
            (snd (list_source_pods default_config
                    (env_sink_down [example_pod ''a'' ''p1'' ''10.0.0.1''])
                    [Print ''[reconcile] start (periodic)''])))
       = False
   \<and> fst (reconcile_all default_config (env_sink_down [example_pod ''a'' ''p1'' ''10.0.0.1''])
            ''periodic'' [])
       = Inl (OtherException ''connection refused'')
   \<and> filter (writes_data
                (configmap_data default_config
                   (build_peers [example_pod ''a'' ''p1'' ''10.0.0.1''])))
         (snd (reconcile_all default_config
                 (env_sink_down [example_pod ''a'' ''p1'' ''10.0.0.1'']) ''periodic'' []))
       = []"
  by (simp add: reconcile_all_def list_source_pods_def sync_dns_def pdns_ready_def
        upsert_configmap_def replace_existing_def env_sink_down_def env_offline_def
        default_config_def Let_def)

text \<open>
  Witness for C7: the DNS API is down and the sink accepts a create; the pass sends no
  PATCH and returns normally.
\<close>

theorem reconcile_all_dns_not_ready_witness:
  "filter is_patch
     (snd (reconcile_all default_config (env_dns_down [example_pod ''a'' ''p1'' ''10.0.0.1''])
             ''periodic'' [])) = []
   \<and> fst (reconcile_all default_config (env_dns_down [example_pod ''a'' ''p1'' ''10.0.0.1''])
            ''periodic'' []) = Inr ()"
proof -
  let ?env = "env_dns_down [example_pod ''a'' ''p1'' ''10.0.0.1'']"
  let ?t1 = "[Print ''[reconcile] start (periodic)'', ListPodForAllNamespaces ''dns=true'']"
  have l: "list_source_pods default_config ?env
             ([] @ [Print (''[reconcile] start ('' @ ''periodic'' @ '')'')])
           = (Inr [example_pod ''a'' ''p1'' ''10.0.0.1''], ?t1)"
    by (simp add: list_source_pods_def default_config_def env_dns_down_def env_healthy_def
          Let_def)
  have r: "fst (pdns_ready default_config ?env ?t1) = False"
    by (simp add: pdns_ready_def env_dns_down_def env_healthy_def Let_def)
  have u: "fst (upsert_configmap default_config ?env peers tr) = Inr ()" for peers tr
    by (simp add: upsert_configmap_def replace_existing_def env_dns_down_def env_healthy_def
          Let_def)
  note inst = reconcile_all_dns_not_ready [OF l r]
  have "filter is_patch (snd (reconcile_all default_config ?env ''periodic'' []))
          = filter is_patch []"
    by (rule inst[THEN conjunct1])
  moreover have "fst (reconcile_all default_config ?env ''periodic'' [])
          = fst (upsert_configmap default_config ?env
                  (build_peers [example_pod ''a'' ''p1'' ''10.0.0.1''])
                  (?t1 @ [RequestsGet (PDNS_API_URL default_config @ ''/api/v1/servers/''
                                       @ PDNS_SERVER_ID default_config),
                          Print ''[pdns] API not ready; will retry later'']))"
    by (rule inst[THEN conjunct2, THEN conjunct1])
  ultimately show ?thesis by (simp add: u)
qed

section \<open>Dispatching a watch event\<close>

lemma delete_a_record_trace:
  "snd (pdns_delete_a_record cfg env f t)
     = t @ [RequestsPatch (zone_url cfg) (delete_payload f)]"
  by (simp add: pdns_delete_a_record_def Let_def split: sum.splits)

lemma incremental_before_pass:
  assumes "\<forall>c\<in>set d0. \<not> is_start c" and "is_start s"
  shows "incremental (d0 @ s # d) = filter is_patch d0"
    and "\<forall>c\<in>set d. \<not> is_start c \<Longrightarrow> length (filter is_start (d0 @ s # d)) = 1"
proof -
  have "takeWhile (\<lambda>c. \<not> is_start c) (d0 @ s # d) = d0"
    using assms by (simp add: takeWhile_append2)
  then show "incremental (d0 @ s # d) = filter is_patch d0"
    by (simp add: incremental_def)
  assume "\<forall>c\<in>set d. \<not> is_start c"
  then have "filter is_start d = []" by (simp add: filter_empty_conv)
  moreover have "filter is_start d0 = []" using assms(1) by (simp add: filter_empty_conv)
  ultimately show "length (filter is_start (d0 @ s # d)) = 1"
    using assms(2) by simp
qed

lemma is_start_line: "is_start (Print (''[reconcile] start ('' @ reason @ '')''))"
  by simp

lemma handle_pod_added_accepted:
  assumes "match_selector (pod_labels p) (SOURCE_LABEL_SELECTOR cfg)" and "has_ip p"
  shows "\<exists>d k. snd (handle_pod_added cfg env (PodObject p) t) = t @ d
           \<and> length (filter is_start d) = 1
           \<and> 1 \<le> k \<and> k \<le> 6
           \<and> incremental d = replicate k (RequestsPatch (zone_url cfg)
                (upsert_payload (fqdn_for_pod cfg (meta_name (metadata p))) (the_ip p)
                   (DNS_TTL cfg)))"
proof -
  let ?f = "fqdn_for_pod cfg (meta_name (metadata p))"
  let ?P = "RequestsPatch (zone_url cfg) (upsert_payload ?f (the_ip p) (DNS_TTL cfg))"
  let ?M = "Print (''[pdns] UPSERT A '' @ ?f @ '' -> '' @ the_ip p)"
  let ?S = "Print (''[reconcile] start ('' @ ''pod_added'' @ '')'')"
  obtain b d0 k where r: "pdns_upsert_with_retry cfg env ?f (the_ip p) (DNS_TTL cfg) 6 2 t
                            = (Inr b, t @ d0)"
    and q0: "\<forall>c\<in>set d0. \<not> is_start c"
    and p0: "filter is_patch d0 = replicate k ?P" and k: "1 \<le> k" "k \<le> 6"
    using upsert_with_retry_default[of cfg env ?f "the_ip p" "DNS_TTL cfg" t]
    by (elim exE conjE)
  obtain d where g: "reconcile_guarded cfg env ''pod_added'' ((t @ d0) @ [?M])
                       = (Inr (), ((t @ d0) @ [?M]) @ ?S # d)"
    and q: "\<forall>c\<in>set d. \<not> is_start c"
    using reconcile_guarded_trace[of cfg env "''pod_added''" "(t @ d0) @ [?M]"]
    by (elim exE conjE)
  have tr: "snd (handle_pod_added cfg env (PodObject p) t) = t @ ((d0 @ [?M]) @ ?S # d)"
    using assms r g by (simp add: handle_pod_added_def Let_def)
  have qm: "\<forall>c\<in>set (d0 @ [?M]). \<not> is_start c" using q0 by simp
  have "incremental ((d0 @ [?M]) @ ?S # d) = filter is_patch (d0 @ [?M])"
    by (rule incremental_before_pass(1)[OF qm is_start_line])
  then have inc: "incremental ((d0 @ [?M]) @ ?S # d) = replicate k ?P" using p0 by simp
  have one: "length (filter is_start ((d0 @ [?M]) @ ?S # d)) = 1"
    by (rule incremental_before_pass(2)[OF qm is_start_line q])
  show ?thesis
    by (intro exI[of _ "(d0 @ [?M]) @ ?S # d"] exI[of _ k] conjI tr one k inc)
qed

lemma handle_pod_deleted_accepted:
  assumes "match_selector (pod_labels p) (SOURCE_LABEL_SELECTOR cfg)"
  shows "\<exists>d. snd (handle_pod_deleted cfg env (PodObject p) t) = t @ d
           \<and> length (filter is_start d) = 1
           \<and> incremental d = [RequestsPatch (zone_url cfg)
                (delete_payload (fqdn_for_pod cfg (meta_name (metadata p))))]"
proof -
  let ?f = "fqdn_for_pod cfg (meta_name (metadata p))"
  let ?P = "RequestsPatch (zone_url cfg) (delete_payload ?f)"
  let ?S = "Print (''[reconcile] start ('' @ ''pod_deleted'' @ '')'')"
  define m where "m = (case fst (pdns_delete_a_record cfg env ?f t) of
                         Inr u \<Rightarrow> Print (''[pdns] DELETE A '' @ ?f)
                       | Inl e \<Rightarrow> Print (''[pdns] delete failed for '' @ ?f @ '': '' @ str_exn e))"
  have nm: "\<not> is_start m" by (simp add: m_def split: sum.splits)
  obtain d where g: "reconcile_guarded cfg env ''pod_deleted'' ((t @ [?P]) @ [m])
                       = (Inr (), ((t @ [?P]) @ [m]) @ ?S # d)"
    and q: "\<forall>c\<in>set d. \<not> is_start c"
    using reconcile_guarded_trace[of cfg env "''pod_deleted''" "(t @ [?P]) @ [m]"]
    by (elim exE conjE)
  have body: "handle_pod_deleted cfg env (PodObject p) t
                = reconcile_guarded cfg env ''pod_deleted'' ((t @ [?P]) @ [m])"
  proof (cases "pdns_delete_a_record cfg env ?f t")
    case (Pair r t')
    then have t': "t' = t @ [?P]"
      using delete_a_record_trace[of cfg env ?f t] by simp
    show ?thesis
      using assms Pair t'
      by (cases r) (simp_all add: handle_pod_deleted_def Let_def m_def)
  qed
  have tr: "snd (handle_pod_deleted cfg env (PodObject p) t) = t @ ([?P, m] @ ?S # d)"
    unfolding body g by simp
  have qm: "\<forall>c\<in>set [?P, m]. \<not> is_start c" using nm by simp
  have "incremental ([?P, m] @ ?S # d) = filter is_patch [?P, m]"
    by (rule incremental_before_pass(1)[OF qm is_start_line])
  moreover have "\<not> is_patch m" by (simp add: m_def split: sum.splits)
  ultimately have inc: "incremental ([?P, m] @ ?S # d) = [?P]" by simp
  have one: "length (filter is_start ([?P, m] @ ?S # d)) = 1"
    by (rule incremental_before_pass(2)[OF qm is_start_line q])
  show ?thesis
    by (intro exI[of _ "[?P, m] @ ?S # d"] conjI tr one inc)
qed


text \<open>
  Claim C2, as amended. The dispatch of an event only appends to the trace. An \<open>ADDED\<close>
  or \<open>MODIFIED\<close> event whose object is a pod that matches the selector and reports an IP
  starts exactly one reconciliation pass, and the PATCH requests before it are those of
  one upsert-with-retry: between one and six attempts at the record of that pod. A
  \<open>DELETED\<close> event whose object is a pod that matches the selector starts exactly one
  pass, preceded by exactly one delete of the record of that pod. Every other event
  (another type, no object, no metadata, a pod the selector rejects, an added pod without
  IP) does nothing: no DNS call and no pass.
\<close>

theorem dispatch_event_effects:
  "\<exists>d. snd (dispatch_event cfg env ev t) = t @ d \<and>
     (case ev_object ev of
        PodObject p \<Rightarrow>
          if (ev_type ev = Some ''ADDED'' \<or> ev_type ev = Some ''MODIFIED'')
             \<and> match_selector (pod_labels p) (SOURCE_LABEL_SELECTOR cfg) \<and> has_ip p
          then length (filter is_start d) = 1
             \<and> (\<exists>k. 1 \<le> k \<and> k \<le> 6
                  \<and> incremental d = replicate k (RequestsPatch (zone_url cfg)
                        (upsert_payload (fqdn_for_pod cfg (meta_name (metadata p))) (the_ip p)
                           (DNS_TTL cfg))))
          else if ev_type ev = Some ''DELETED''
             \<and> match_selector (pod_labels p) (SOURCE_LABEL_SELECTOR cfg)
          then length (filter is_start d) = 1
             \<and> incremental d = [RequestsPatch (zone_url cfg)
                   (delete_payload (fqdn_for_pod cfg (meta_name (metadata p))))]
          else d = []
      | _ \<Rightarrow> d = [])"
proof (cases "ev_object ev")
  case NoObject
  then have "snd (dispatch_event cfg env ev t) = t @ []"
    by (simp add: dispatch_event_def handle_pod_added_def handle_pod_deleted_def)
  then show ?thesis using NoObject by (intro exI[of _ "[]"]) simp
next
  case NoMetadata
  then have "snd (dispatch_event cfg env ev t) = t @ []"
    by (simp add: dispatch_event_def handle_pod_added_def handle_pod_deleted_def)
  then show ?thesis using NoMetadata by (intro exI[of _ "[]"]) simp
next
  case (PodObject p)
  let ?sel = "match_selector (pod_labels p) (SOURCE_LABEL_SELECTOR cfg)"
  let ?add = "ev_type ev = Some ''ADDED'' \<or> ev_type ev = Some ''MODIFIED''"
  consider (added) "?add" "?sel" "has_ip p"
    | (deleted) "ev_type ev = Some ''DELETED''" "?sel"
    | (ignored) "\<not> (?add \<and> ?sel \<and> has_ip p)" "\<not> (ev_type ev = Some ''DELETED'' \<and> ?sel)"
    by auto
  then show ?thesis
  proof cases
    case added
    from handle_pod_added_accepted[OF added(2,3), of env t]
    obtain d k where "snd (handle_pod_added cfg env (PodObject p) t) = t @ d"
      and "length (filter is_start d) = 1" and "1 \<le> k" and "k \<le> 6"
      and "incremental d = replicate k (RequestsPatch (zone_url cfg)
                (upsert_payload (fqdn_for_pod cfg (meta_name (metadata p))) (the_ip p)
                   (DNS_TTL cfg)))"
      by (elim exE conjE)
    then show ?thesis
      using added PodObject by (intro exI[of _ d]) (auto simp: dispatch_event_def)
  next
    case deleted
    then have na: "\<not> ?add" by auto
    from handle_pod_deleted_accepted[OF deleted(2), of env t]
    obtain d where "snd (handle_pod_deleted cfg env (PodObject p) t) = t @ d"
      and "length (filter is_start d) = 1"
      and "incremental d = [RequestsPatch (zone_url cfg)
                (delete_payload (fqdn_for_pod cfg (meta_name (metadata p))))]"
      by (elim exE conjE)
    then show ?thesis
      using deleted na PodObject by (intro exI[of _ d]) (simp add: dispatch_event_def)
  next
    case ignored
    then have "snd (dispatch_event cfg env ev t) = t @ []"
      using PodObject
      by (auto simp: dispatch_event_def handle_pod_added_def handle_pod_deleted_def Let_def)
    then show ?thesis using ignored PodObject by (intro exI[of _ "[]"]) auto
  qed
qed

lemma unlabelled_pod_not_selected:
  "\<not> match_selector (pod_labels unlabelled_pod) (SOURCE_LABEL_SELECTOR default_config)"
  by code_simp

lemma example_pod_selected:
  "match_selector (pod_labels (example_pod ns n a)) (SOURCE_LABEL_SELECTOR default_config)"
proof -
  have "match_selector [''dns'' \<mapsto> ''true''] ''dns=true''" by code_simp
  then show ?thesis by (simp add: example_pod_def pod_labels_def default_config_def)
qed

text \<open>
  Counterexample to C2 as stated: an \<open>ADDED\<close> event for a pod without the label the
  selector asks for starts no reconciliation pass.
\<close>

theorem dispatch_event_counterexample:
  "length (filter is_start
     (snd (dispatch_event default_config (env_healthy [])
             \<lparr> ev_type = Some ''ADDED'', ev_object = PodObject unlabelled_pod \<rparr> []))) = 0"
  using unlabelled_pod_not_selected
  by (simp add: dispatch_event_def handle_pod_added_def Let_def)

text \<open>
  Witness for C2: a \<open>DELETED\<close> event for a selected pod, in a healthy world: one delete
  of \<open>p1.example.com.\<close>, then one pass.
\<close>

theorem dispatch_event_effects_witness:
  "\<exists>d. snd (dispatch_event default_config (env_healthy [])
                 \<lparr> ev_type = Some ''DELETED'',
                   ev_object = PodObject (example_pod ''a'' ''p1'' ''10.0.0.1'') \<rparr> []) = d
     \<and> length (filter is_start d) = 1
     \<and> incremental d = [RequestsPatch (zone_url default_config) (delete_payload ''p1.example.com.'')]"
proof -
  have f: "fqdn_for_pod default_config ''p1'' = ''p1.example.com.''" by code_simp
  from dispatch_event_effects [of default_config "env_healthy []"
      "\<lparr> ev_type = Some ''DELETED'',
         ev_object = PodObject (example_pod ''a'' ''p1'' ''10.0.0.1'') \<rparr>" "[]"]
  obtain d where
    "snd (dispatch_event default_config (env_healthy [])
            \<lparr> ev_type = Some ''DELETED'',
              ev_object = PodObject (example_pod ''a'' ''p1'' ''10.0.0.1'') \<rparr> []) = d"
    and "length (filter is_start d) = 1"
    and "incremental d = [RequestsPatch (zone_url default_config)
           (delete_payload (fqdn_for_pod default_config
              (meta_name (metadata (example_pod ''a'' ''p1'' ''10.0.0.1'')))))]"
    using example_pod_selected[of "''a''" "''p1''" "''10.0.0.1''"] by auto
  then show ?thesis
    using f by (intro exI[of _ d]) (simp add: example_pod_def)
qed

end
